theory Spec2Isabelle
  imports Complex_Main
begin

section \<open>MapLooper: one loop track over a signal bus\<close>

text \<open>
  The development embeds \<^verbatim>\<open>include/MapLooper/Loop.hpp\<close>: the class \<^verbatim>\<open>MapLooper::Loop\<close>
  with its constructor, destructor, the five mapping requests and \<^verbatim>\<open>update\<close>.

  The class talks to an external signal bus through a C interface. The bus is not part
  of the program, so it is modelled only as far as the class uses it:
  \<^item> a signal handle is one of the nine members of the class (type \<open>endpoint\<close>);
  \<^item> the bus keeps a table of the registered signals with their properties, and the
    current value of each signal, a vector of numbers or nothing at all (the null
    pointer that \<^verbatim>\<open>mpr_sig_get_value\<close> returns for a signal without a value);
  \<^item> every call the class makes on the bus is appended to a log, in program order;
  \<^item> numbers are real numbers: the rounding of \<^verbatim>\<open>float\<close> and \<^verbatim>\<open>double\<close> is not
    modelled;
  \<^item> a step whose behaviour C++ leaves undefined (reading through a null pointer,
    converting a floating value outside the range of \<^verbatim>\<open>int\<close>, overflow of a signed
    subtraction) is an error result of the model.
\<close>

subsection \<open>Data\<close>

datatype endpoint =
    SigRecord | SigLength | SigModulation | SigDivision
  | SigIn | SigOut | SigLocalReceive | SigLocalSend | SigMute

datatype mpr_dir = MPR_DIR_IN | MPR_DIR_OUT

datatype mpr_type = MPR_FLT | MPR_INT32 | MPR_DBL

record sig_props =
  sig_name :: string
  sig_dir :: mpr_dir
  sig_len :: int
  sig_type :: mpr_type
  sig_unit :: "string option"
  sig_min :: "real list"
  sig_max :: "real list"

text \<open>An object of the graph as a handler sees it: its identity and its name property.\<close>

record mpr_obj =
  obj_id :: nat
  obj_name :: string

datatype sig_ref = Local endpoint | Observed mpr_obj

datatype mpr_map =
    Map_from_str string "endpoint list"
  | Map_link sig_ref sig_ref

datatype mpr_graph_evt = MPR_OBJ_NEW | MPR_OBJ_MOD | MPR_OBJ_REM | MPR_OBJ_EXP

text \<open>
  The two handlers of the class, each with the \<^verbatim>\<open>MapData\<close> it was registered with:
  \<open>From_handler src dst\<close> is the lambda of \<^verbatim>\<open>_mapFrom\<close>, \<open>To_handler src dst\<close> the one
  of \<^verbatim>\<open>_mapTo\<close>.
\<close>

datatype handler =
    From_handler string endpoint
  | To_handler endpoint string

datatype call =
    Sig_new endpoint sig_props
  | Sig_set_value endpoint "real list option"
  | Sig_free endpoint
  | Obj_push mpr_map
  | Dev_poll
  | Graph_add_cb handler
  | Printf_missed int

datatype error =
    Null_dereference
  | Read_out_of_bounds
  | Float_to_int_out_of_range
  | Signed_overflow

record loop_state =
  sigs :: "(endpoint \<times> sig_props) list"
  vals :: "endpoint \<Rightarrow> real list option"
  loopMap :: "mpr_map option"
  maps :: "mpr_map list"
  cbs :: "handler list"
  polls :: nat
  lastUpdate :: int
  sig_type_of :: mpr_type
  vectorSize :: int
  calls :: "call list"

subsection \<open>The calls on the bus\<close>

definition mpr_sig_new :: "endpoint \<Rightarrow> sig_props \<Rightarrow> loop_state \<Rightarrow> loop_state" where
  "mpr_sig_new e p s =
     s\<lparr>sigs := sigs s @ [(e, p)], calls := calls s @ [Sig_new e p]\<rparr>"

definition mpr_sig_get_value :: "loop_state \<Rightarrow> endpoint \<Rightarrow> real list option" where
  "mpr_sig_get_value s e = vals s e"

definition mpr_sig_set_value :: "endpoint \<Rightarrow> real list option \<Rightarrow> loop_state \<Rightarrow> loop_state" where
  "mpr_sig_set_value e v s =
     s\<lparr>vals := (vals s)(e := v), calls := calls s @ [Sig_set_value e v]\<rparr>"

definition mpr_sig_free :: "endpoint \<Rightarrow> loop_state \<Rightarrow> loop_state" where
  "mpr_sig_free e s =
     s\<lparr>sigs := filter (\<lambda>x. fst x \<noteq> e) (sigs s),
       vals := (vals s)(e := None),
       calls := calls s @ [Sig_free e]\<rparr>"

definition mpr_map_new_from_str :: "string \<Rightarrow> endpoint list \<Rightarrow> mpr_map" where
  "mpr_map_new_from_str str args = Map_from_str str args"

definition mpr_map_new :: "sig_ref \<Rightarrow> sig_ref \<Rightarrow> mpr_map" where
  "mpr_map_new src dst = Map_link src dst"

definition mpr_obj_push :: "mpr_map \<Rightarrow> loop_state \<Rightarrow> loop_state" where
  "mpr_obj_push m s = s\<lparr>maps := maps s @ [m], calls := calls s @ [Obj_push m]\<rparr>"

definition mpr_dev_poll :: "loop_state \<Rightarrow> loop_state" where
  "mpr_dev_poll s = s\<lparr>polls := Suc (polls s), calls := calls s @ [Dev_poll]\<rparr>"

definition mpr_graph_add_cb :: "handler \<Rightarrow> loop_state \<Rightarrow> loop_state" where
  "mpr_graph_add_cb h s = s\<lparr>cbs := cbs s @ [h], calls := calls s @ [Graph_add_cb h]\<rparr>"

definition printf_missed :: "int \<Rightarrow> loop_state \<Rightarrow> loop_state" where
  "printf_missed n s = s\<lparr>calls := calls s @ [Printf_missed n]\<rparr>"

subsection \<open>C arithmetic used by update\<close>

text \<open>
  Reading the first element through the pointer that \<^verbatim>\<open>mpr_sig_get_value\<close> returned:
  \<^verbatim>\<open>*((float*) p)\<close> and \<^verbatim>\<open>*((int*) p)\<close>.
\<close>

fun deref :: "real list option \<Rightarrow> error + real" where
  "deref None = Inl Null_dereference"
| "deref (Some []) = Inl Read_out_of_bounds"
| "deref (Some (x # xs)) = Inr x"

definition INT_MIN :: int where "INT_MIN = - 2147483648"
definition INT_MAX :: int where "INT_MAX = 2147483647"

text \<open>Conversion of a floating value to \<^verbatim>\<open>int\<close>: the fractional part is discarded.\<close>

definition trunc :: "real \<Rightarrow> int" where
  "trunc x = (if 0 \<le> x then \<lfloor>x\<rfloor> else \<lceil>x\<rceil>)"

definition to_int :: "real \<Rightarrow> error + int" where
  "to_int x =
     (if INT_MIN \<le> trunc x \<and> trunc x \<le> INT_MAX then Inr (trunc x)
      else Inl Float_to_int_out_of_range)"

definition int_sub :: "int \<Rightarrow> int \<Rightarrow> error + int" where
  "int_sub a b =
     (if INT_MIN \<le> a - b \<and> a - b \<le> INT_MAX then Inr (a - b) else Inl Signed_overflow)"

subsection \<open>update\<close>

text \<open>
  \<^verbatim>\<open>int now = beats * division;\<close> with \<open>division\<close> read from the division signal.
\<close>

definition tick_now :: "real \<Rightarrow> loop_state \<Rightarrow> error + int" where
  "tick_now beats s =
     (case deref (mpr_sig_get_value s SigDivision) of
        Inl e \<Rightarrow> Inl e
      | Inr division \<Rightarrow> to_int (beats * division))"

text \<open>The body of \<^verbatim>\<open>if (now != _lastUpdate) { ... }\<close>.\<close>

definition on_tick :: "int \<Rightarrow> loop_state \<Rightarrow> error + loop_state" where
  "on_tick now s =
     (case int_sub now (lastUpdate s) of
        Inl e \<Rightarrow> Inl e
      | Inr d \<Rightarrow>
          let s1 = (if d > 1 then printf_missed (d - 1) s else s);
              inputValue = mpr_sig_get_value s1 SigIn;
              s2 = mpr_sig_set_value SigLocalSend inputValue s1
          in Inr (s2\<lparr>lastUpdate := now\<rparr>))"

text \<open>The mute check at the end of \<^verbatim>\<open>update\<close>.\<close>

definition mute_gate :: "loop_state \<Rightarrow> error + loop_state" where
  "mute_gate s =
     (case deref (mpr_sig_get_value s SigMute) of
        Inl e \<Rightarrow> Inl e
      | Inr m \<Rightarrow>
          if m \<noteq> 0 then Inr s
          else Inr (mpr_sig_set_value SigOut (mpr_sig_get_value s SigLocalReceive) s))"

definition update :: "real \<Rightarrow> loop_state \<Rightarrow> error + loop_state" where
  "update beats s =
     (case tick_now beats s of
        Inl e \<Rightarrow> Inl e
      | Inr now \<Rightarrow>
          (case (if now \<noteq> lastUpdate s then on_tick now s else Inr s) of
             Inl e \<Rightarrow> Inl e
           | Inr s1 \<Rightarrow> mute_gate s1))"

subsection \<open>Sequences of update calls\<close>

text \<open>
  Between two calls of \<^verbatim>\<open>update\<close> the bus and its peers may change the value of any
  signal. Such a change is a \<open>bus_write\<close>: it is not a call of the class and is not
  logged. A step of a run is a list of such writes followed by one call of
  \<^verbatim>\<open>update\<close> with the given beat position.
\<close>

definition bus_write :: "endpoint \<times> real list option \<Rightarrow> loop_state \<Rightarrow> loop_state" where
  "bus_write w s = s\<lparr>vals := (vals s)(fst w := snd w)\<rparr>"

definition bus_writes :: "(endpoint \<times> real list option) list \<Rightarrow> loop_state \<Rightarrow> loop_state" where
  "bus_writes ws s = fold bus_write ws s"

type_synonym step = "(endpoint \<times> real list option) list \<times> real"

fun run :: "step list \<Rightarrow> loop_state \<Rightarrow> error + loop_state" where
  "run [] s = Inr s"
| "run (st # rest) s =
     (case update (snd st) (bus_writes (fst st) s) of
        Inl e \<Rightarrow> Inl e
      | Inr s' \<Rightarrow> run rest s')"

text \<open>The tick index that each call of a run derives, in call order.\<close>

fun run_ticks :: "step list \<Rightarrow> loop_state \<Rightarrow> (error + int) list" where
  "run_ticks [] s = []"
| "run_ticks (st # rest) s =
     tick_now (snd st) (bus_writes (fst st) s) #
     (case update (snd st) (bus_writes (fst st) s) of
        Inl e \<Rightarrow> []
      | Inr s' \<Rightarrow> run_ticks rest s')"

text \<open>Whether each call of a run finds the track muted, in call order.\<close>

fun run_muted :: "step list \<Rightarrow> loop_state \<Rightarrow> bool list" where
  "run_muted [] s = []"
| "run_muted (st # rest) s =
     (case deref (mpr_sig_get_value (bus_writes (fst st) s) SigMute) of
        Inl e \<Rightarrow> False
      | Inr m \<Rightarrow> m \<noteq> 0) #
     (case update (snd st) (bus_writes (fst st) s) of
        Inl e \<Rightarrow> []
      | Inr s' \<Rightarrow> run_muted rest s')"

text \<open>What a log shows: the captures to local-send, the diagnostics, the writes of the output.\<close>

definition captures :: "call list \<Rightarrow> real list option list" where
  "captures cs = concat (map (\<lambda>c. case c of Sig_set_value e v \<Rightarrow> (if e = SigLocalSend then [v] else []) | _ \<Rightarrow> []) cs)"

definition diagnostics :: "call list \<Rightarrow> int list" where
  "diagnostics cs = concat (map (\<lambda>c. case c of Printf_missed n \<Rightarrow> [n] | _ \<Rightarrow> []) cs)"

definition out_writes :: "call list \<Rightarrow> real list option list" where
  "out_writes cs = concat (map (\<lambda>c. case c of Sig_set_value e v \<Rightarrow> (if e = SigOut then [v] else []) | _ \<Rightarrow> []) cs)"

subsection \<open>Constructor and destructor\<close>

text \<open>\<^verbatim>\<open>std::snprintf(sigName, sizeof(sigName), "%s/%s", name, suffix)\<close> with \<^verbatim>\<open>char sigName[128]\<close>.\<close>

definition sigName :: "string \<Rightarrow> string \<Rightarrow> string" where
  "sigName name suffix = take 127 (name @ ''/'' @ suffix)"

text \<open>The member initialisers, with \<^verbatim>\<open>int _lastUpdate = 0\<close>.\<close>

definition Loop_init :: "mpr_type \<Rightarrow> int \<Rightarrow> loop_state" where
  "Loop_init type n =
     \<lparr>sigs = [], vals = (\<lambda>e. None), loopMap = None, maps = [], cbs = [], polls = 0,
      lastUpdate = 0, sig_type_of = type, vectorSize = n, calls = []\<rparr>"

text \<open>
  The constructor hands the bus the addresses of its local variables: \<^verbatim>\<open>&sigMin\<close> and
  \<^verbatim>\<open>&sigMax\<close>, two \<^verbatim>\<open>float\<close>s holding 0 and 1, as the range of the record and
  modulation signals and of the four vector signals, and \<^verbatim>\<open>&sigMin\<close> again as the first
  value of the vector signals. The bus reads as many elements as the signal is long, of
  the type of the signal. For one float element that is the vector \<open>[0]\<close> at \<^verbatim>\<open>&sigMin\<close>
  and \<open>[1]\<close> at \<^verbatim>\<open>&sigMax\<close>; for any other length or type the read leaves the variable
  or reinterprets it, and the source does not determine what is found. That content is
  the parameter \<open>mem\<close>: its first component is what is found at \<^verbatim>\<open>&sigMin\<close>, its second
  what is found at \<^verbatim>\<open>&sigMax\<close>.
\<close>

definition at_sigMin :: "real list \<Rightarrow> mpr_type \<Rightarrow> int \<Rightarrow> real list" where
  "at_sigMin mem type n = (if type = MPR_FLT \<and> n = 1 then [0] else mem)"

definition at_sigMax :: "real list \<Rightarrow> mpr_type \<Rightarrow> int \<Rightarrow> real list" where
  "at_sigMax mem type n = (if type = MPR_FLT \<and> n = 1 then [1] else mem)"

text \<open>
  The control signals have one element, and the variables whose addresses give their
  range have the type of the signal, so the range read is the pair of numbers stored.
\<close>

definition control_props :: "string \<Rightarrow> mpr_type \<Rightarrow> string option \<Rightarrow> real \<Rightarrow> real \<Rightarrow> sig_props" where
  "control_props nm type unit lo hi =
     \<lparr>sig_name = nm, sig_dir = MPR_DIR_OUT, sig_len = 1, sig_type = type,
      sig_unit = unit, sig_min = [lo], sig_max = [hi]\<rparr>"

definition vector_props ::
  "string \<Rightarrow> mpr_dir \<Rightarrow> real list \<times> real list \<Rightarrow> loop_state \<Rightarrow> sig_props" where
  "vector_props nm dir mem s =
     \<lparr>sig_name = nm, sig_dir = dir, sig_len = vectorSize s, sig_type = sig_type_of s,
      sig_unit = None,
      sig_min = at_sigMin (fst mem) (sig_type_of s) (vectorSize s),
      sig_max = at_sigMax (snd mem) (sig_type_of s) (vectorSize s)\<rparr>"

definition create_control_signals :: "string \<Rightarrow> loop_state \<Rightarrow> loop_state" where
  "create_control_signals name s0 =
     (let s = mpr_sig_new SigRecord
                (control_props (sigName name ''control/record'') MPR_FLT None 0 1) s0;
          s = mpr_sig_set_value SigRecord (Some [0]) s;
          s = mpr_sig_new SigLength
                (control_props (sigName name ''control/length'') MPR_FLT (Some ''beats'') 0 100) s;
          s = mpr_sig_new SigDivision
                (control_props (sigName name ''control/division'') MPR_FLT (Some ''ppqn'') 1 96) s;
          s = mpr_sig_new SigModulation
                (control_props (sigName name ''control/modulation'') MPR_FLT None 0 1) s;
          s = mpr_sig_set_value SigModulation (Some [0]) s;
          s = mpr_sig_new SigMute
                (control_props (sigName name ''control/mute'') MPR_INT32 None 0 1) s;
          s = mpr_sig_set_value SigMute (Some [0]) s
      in s)"

definition create_vector_signals ::
  "real list \<times> real list \<Rightarrow> string \<Rightarrow> loop_state \<Rightarrow> loop_state" where
  "create_vector_signals mem name s0 =
     (let v = Some (at_sigMin (fst mem) (sig_type_of s0) (vectorSize s0));
          s = mpr_sig_new SigIn (vector_props (sigName name ''input'') MPR_DIR_IN mem s0) s0;
          s = mpr_sig_set_value SigIn v s;
          s = mpr_sig_new SigOut (vector_props (sigName name ''output'') MPR_DIR_OUT mem s) s;
          s = mpr_sig_set_value SigOut v s;
          s = mpr_sig_new SigLocalSend (vector_props (sigName name ''local/send'') MPR_DIR_OUT mem s) s;
          s = mpr_sig_set_value SigLocalSend v s;
          s = mpr_sig_new SigLocalReceive (vector_props (sigName name ''local/recv'') MPR_DIR_IN mem s) s;
          s = mpr_sig_set_value SigLocalReceive v s
      in s)"

text \<open>The expression string of the feedback map and its signal arguments, as in the source.\<close>

definition loopMap_str :: string where
  "loopMap_str = ''del=_%x*_%x;%y=_%x*%x+(1-_%x)*y{-del,100}+_%x*(uniform(2.0)-1)''"

definition loopMap_args :: "endpoint list" where
  "loopMap_args =
     [SigLength, SigDivision, SigLocalReceive, SigRecord, SigLocalSend, SigRecord, SigModulation]"

definition create_map :: "loop_state \<Rightarrow> loop_state" where
  "create_map s0 =
     (let m = mpr_map_new_from_str loopMap_str loopMap_args;
          s = s0\<lparr>loopMap := Some m\<rparr>
      in mpr_obj_push m s)"

text \<open>
  \<^verbatim>\<open>while (!mpr_map_get_is_ready(_loopMap)) mpr_dev_poll(dev, 10);\<close>
  Whether the bus reports the map ready is the bus's affair: \<open>ready k\<close> says whether it
  does after \<open>k\<close> polls of the device. The loop has no bound, so it is a partial function
  and a wait that never ends is the value \<open>None\<close>.
\<close>

partial_function (option) wait_ready :: "(nat \<Rightarrow> bool) \<Rightarrow> loop_state \<Rightarrow> loop_state option" where
  "wait_ready ready s =
     (if ready (polls s) then Some s else wait_ready ready (mpr_dev_poll s))"

definition Loop_create :: "real list \<times> real list \<Rightarrow> string \<Rightarrow> loop_state \<Rightarrow> loop_state" where
  "Loop_create mem name s =
     create_map (create_vector_signals mem name (create_control_signals name s))"

definition set_defaults :: "loop_state \<Rightarrow> loop_state" where
  "set_defaults s =
     mpr_sig_set_value SigDivision (Some [16]) (mpr_sig_set_value SigLength (Some [1]) s)"

definition Loop_ctor ::
  "(nat \<Rightarrow> bool) \<Rightarrow> real list \<times> real list \<Rightarrow> string \<Rightarrow> mpr_type \<Rightarrow> int \<Rightarrow> loop_state option" where
  "Loop_ctor ready mem name type n =
     (case wait_ready ready (Loop_create mem name (Loop_init type n)) of
        None \<Rightarrow> None
      | Some s \<Rightarrow> Some (set_defaults s))"

definition Loop_dtor :: "loop_state \<Rightarrow> loop_state" where
  "Loop_dtor s0 =
     (let s = mpr_sig_free SigRecord s0;
          s = mpr_sig_free SigLength s;
          s = mpr_sig_free SigModulation s;
          s = mpr_sig_free SigDivision s;
          s = mpr_sig_free SigIn s;
          s = mpr_sig_free SigOut s;
          s = mpr_sig_free SigLocalReceive s;
          s = mpr_sig_free SigLocalSend s
      in s)"

text \<open>The names of the signals that the bus still shows.\<close>

definition observable :: "loop_state \<Rightarrow> string list" where
  "observable s = map (\<lambda>x. sig_name (snd x)) (sigs s)"

subsection \<open>Mapping requests and graph events\<close>

definition mapFrom :: "string \<Rightarrow> endpoint \<Rightarrow> loop_state \<Rightarrow> loop_state" where
  "mapFrom src dst s = mpr_graph_add_cb (From_handler src dst) s"

definition mapTo :: "endpoint \<Rightarrow> string \<Rightarrow> loop_state \<Rightarrow> loop_state" where
  "mapTo src dst s = mpr_graph_add_cb (To_handler src dst) s"

definition mapRecord :: "string \<Rightarrow> loop_state \<Rightarrow> loop_state" where
  "mapRecord src = mapFrom src SigRecord"

definition mapLength :: "string \<Rightarrow> loop_state \<Rightarrow> loop_state" where
  "mapLength src = mapFrom src SigLength"

definition mapModulation :: "string \<Rightarrow> loop_state \<Rightarrow> loop_state" where
  "mapModulation src = mapFrom src SigModulation"

definition mapInput :: "string \<Rightarrow> loop_state \<Rightarrow> loop_state" where
  "mapInput src = mapFrom src SigIn"

definition mapOutput :: "string \<Rightarrow> loop_state \<Rightarrow> loop_state" where
  "mapOutput dst = mapTo SigOut dst"

text \<open>
  The bodies of the two lambdas. \<^verbatim>\<open>strcmp(a, b) == 0\<close> on C strings is equality of the
  strings. The event kind is a parameter that neither lambda reads.
\<close>

fun run_handler :: "handler \<Rightarrow> mpr_obj \<Rightarrow> mpr_graph_evt \<Rightarrow> loop_state \<Rightarrow> loop_state" where
  "run_handler (From_handler src dst) obj evt s =
     (if src = obj_name obj
      then mpr_obj_push (mpr_map_new (Observed obj) (Local dst)) s else s)"
| "run_handler (To_handler src dst) obj evt s =
     (if dst = obj_name obj
      then mpr_obj_push (mpr_map_new (Local src) (Observed obj)) s else s)"

text \<open>
  One event of the graph about a signal object: the bus calls every registered handler,
  in the order of registration.
\<close>

definition graph_event :: "mpr_obj \<times> mpr_graph_evt \<Rightarrow> loop_state \<Rightarrow> loop_state" where
  "graph_event oe s = fold (\<lambda>h. run_handler h (fst oe) (snd oe)) (cbs s) s"

definition graph_events :: "(mpr_obj \<times> mpr_graph_evt) list \<Rightarrow> loop_state \<Rightarrow> loop_state" where
  "graph_events es s = fold graph_event es s"

text \<open>The connections (maps between two signals) that have been pushed to the bus.\<close>

definition links :: "loop_state \<Rightarrow> (sig_ref \<times> sig_ref) list" where
  "links s = concat (map (\<lambda>m. case m of Map_link a b \<Rightarrow> [(a, b)] | _ \<Rightarrow> []) (maps s))"

subsection \<open>The feedback expression\<close>

text \<open>
  The expression language belongs to the bus. The string of the source is read here as
  a syntax tree; \<open>show_prog\<close> prints a tree back to the expression string together with
  the signals that its placeholders take, in order, so that the tree can be compared with
  the string and the argument list of the source.

  \<open>Sig m e\<close> is a placeholder \<^verbatim>\<open>%x\<close> bound to signal \<open>e\<close>, written \<^verbatim>\<open>_%x\<close> when \<open>m\<close> holds;
  \<open>Hist d c\<close> is \<^verbatim>\<open>y{d,c}\<close>, the past output at offset \<open>d\<close> with history size \<open>c\<close>;
  \<open>Lit t v\<close> is the numeral written \<open>t\<close>, of value \<open>v\<close>.
\<close>

datatype expr =
    Lit string real
  | Var string
  | Sig bool endpoint
  | Add expr expr
  | Sub expr expr
  | Mul expr expr
  | Neg expr
  | Paren expr
  | Hist expr expr
  | Uniform expr

datatype stmt = Assign_var string expr | Assign_dst endpoint expr

fun show_expr :: "expr \<Rightarrow> string \<times> endpoint list" where
  "show_expr (Lit t v) = (t, [])"
| "show_expr (Var x) = (x, [])"
| "show_expr (Sig m e) = ((if m then ''_%x'' else ''%x''), [e])"
| "show_expr (Add a b) =
     (fst (show_expr a) @ ''+'' @ fst (show_expr b), snd (show_expr a) @ snd (show_expr b))"
| "show_expr (Sub a b) =
     (fst (show_expr a) @ ''-'' @ fst (show_expr b), snd (show_expr a) @ snd (show_expr b))"
| "show_expr (Mul a b) =
     (fst (show_expr a) @ ''*'' @ fst (show_expr b), snd (show_expr a) @ snd (show_expr b))"
| "show_expr (Neg a) = (''-'' @ fst (show_expr a), snd (show_expr a))"
| "show_expr (Paren a) = (''('' @ fst (show_expr a) @ '')'', snd (show_expr a))"
| "show_expr (Hist d c) =
     (''y{'' @ fst (show_expr d) @ '','' @ fst (show_expr c) @ ''}'',
      snd (show_expr d) @ snd (show_expr c))"
| "show_expr (Uniform a) = (''uniform('' @ fst (show_expr a) @ '')'', snd (show_expr a))"

fun show_stmt :: "stmt \<Rightarrow> string \<times> endpoint list" where
  "show_stmt (Assign_var x e) = (x @ ''='' @ fst (show_expr e), snd (show_expr e))"
| "show_stmt (Assign_dst d e) = (''%y='' @ fst (show_expr e), d # snd (show_expr e))"

fun show_prog :: "stmt list \<Rightarrow> string \<times> endpoint list" where
  "show_prog [] = ([], [])"
| "show_prog [st] = show_stmt st"
| "show_prog (st # rest) =
     (fst (show_stmt st) @ '';'' @ fst (show_prog rest), snd (show_stmt st) @ snd (show_prog rest))"

definition loopMap_prog :: "stmt list" where
  "loopMap_prog =
     [Assign_var ''del'' (Mul (Sig True SigLength) (Sig True SigDivision)),
      Assign_dst SigLocalReceive
        (Add (Add (Mul (Sig True SigRecord) (Sig False SigLocalSend))
                  (Mul (Paren (Sub (Lit ''1'' 1) (Sig True SigRecord)))
                       (Hist (Neg (Var ''del'')) (Lit ''100'' 100))))
             (Mul (Sig True SigModulation)
                  (Paren (Sub (Uniform (Lit ''2.0'' 2)) (Lit ''1'' 1)))))]"

text \<open>
  Evaluation, for one element of the signal vectors. The bus supplies \<open>hist d c\<close>, the
  past output that it finds for offset \<open>d\<close> in a history of size \<open>c\<close>, and \<open>rnd a\<close>, the
  number that \<^verbatim>\<open>uniform(a)\<close> draws; \<open>env\<close> holds the current values of the signals and
  \<open>vars\<close> those of the variables of the expression.
\<close>

fun eval ::
  "(endpoint \<Rightarrow> real) \<Rightarrow> (string \<Rightarrow> real) \<Rightarrow> (real \<Rightarrow> real \<Rightarrow> real) \<Rightarrow> (real \<Rightarrow> real) \<Rightarrow> expr \<Rightarrow> real" where
  "eval env vars hist rnd (Lit t v) = v"
| "eval env vars hist rnd (Var x) = vars x"
| "eval env vars hist rnd (Sig m e) = env e"
| "eval env vars hist rnd (Add a b) = eval env vars hist rnd a + eval env vars hist rnd b"
| "eval env vars hist rnd (Sub a b) = eval env vars hist rnd a - eval env vars hist rnd b"
| "eval env vars hist rnd (Mul a b) = eval env vars hist rnd a * eval env vars hist rnd b"
| "eval env vars hist rnd (Neg a) = - eval env vars hist rnd a"
| "eval env vars hist rnd (Paren a) = eval env vars hist rnd a"
| "eval env vars hist rnd (Hist d c) = hist (eval env vars hist rnd d) (eval env vars hist rnd c)"
| "eval env vars hist rnd (Uniform a) = rnd (eval env vars hist rnd a)"

text \<open>The history look-ups that evaluating an expression makes: offset and history size.\<close>

fun lookups ::
  "(endpoint \<Rightarrow> real) \<Rightarrow> (string \<Rightarrow> real) \<Rightarrow> (real \<Rightarrow> real \<Rightarrow> real) \<Rightarrow> (real \<Rightarrow> real) \<Rightarrow> expr \<Rightarrow> (real \<times> real) list" where
  "lookups env vars hist rnd (Lit t v) = []"
| "lookups env vars hist rnd (Var x) = []"
| "lookups env vars hist rnd (Sig m e) = []"
| "lookups env vars hist rnd (Add a b) = lookups env vars hist rnd a @ lookups env vars hist rnd b"
| "lookups env vars hist rnd (Sub a b) = lookups env vars hist rnd a @ lookups env vars hist rnd b"
| "lookups env vars hist rnd (Mul a b) = lookups env vars hist rnd a @ lookups env vars hist rnd b"
| "lookups env vars hist rnd (Neg a) = lookups env vars hist rnd a"
| "lookups env vars hist rnd (Paren a) = lookups env vars hist rnd a"
| "lookups env vars hist rnd (Hist d c) =
     lookups env vars hist rnd d @ lookups env vars hist rnd c @
     [(eval env vars hist rnd d, eval env vars hist rnd c)]"
| "lookups env vars hist rnd (Uniform a) = lookups env vars hist rnd a"

text \<open>
  Running the statements in order: the variables after them, the values assigned to
  destination signals, and the history look-ups made.
\<close>

fun exec ::
  "(endpoint \<Rightarrow> real) \<Rightarrow> (real \<Rightarrow> real \<Rightarrow> real) \<Rightarrow> (real \<Rightarrow> real) \<Rightarrow> stmt list \<Rightarrow>
   (string \<Rightarrow> real) \<Rightarrow> (endpoint \<times> real) list \<times> (real \<times> real) list" where
  "exec env hist rnd [] vars = ([], [])"
| "exec env hist rnd (Assign_var x e # rest) vars =
     (let r = exec env hist rnd rest (vars(x := eval env vars hist rnd e))
      in (fst r, lookups env vars hist rnd e @ snd r))"
| "exec env hist rnd (Assign_dst d e # rest) vars =
     (let r = exec env hist rnd rest vars
      in ((d, eval env vars hist rnd e) # fst r, lookups env vars hist rnd e @ snd r))"

definition feedback_output ::
  "(endpoint \<Rightarrow> real) \<Rightarrow> (real \<Rightarrow> real \<Rightarrow> real) \<Rightarrow> (real \<Rightarrow> real) \<Rightarrow> (endpoint \<times> real) list" where
  "feedback_output env hist rnd = fst (exec env hist rnd loopMap_prog (\<lambda>x. 0))"

definition feedback_lookups ::
  "(endpoint \<Rightarrow> real) \<Rightarrow> (real \<Rightarrow> real \<Rightarrow> real) \<Rightarrow> (real \<Rightarrow> real) \<Rightarrow> (real \<times> real) list" where
  "feedback_lookups env hist rnd = snd (exec env hist rnd loopMap_prog (\<lambda>x. 0))"

text \<open>
  The recurrence as section 4.2 of the specification writes it, for comparison with the
  expression of the source.
\<close>

definition spec_delay :: "(endpoint \<Rightarrow> real) \<Rightarrow> real" where
  "spec_delay env = env SigRecord * env SigDivision"

definition spec_noise :: "(endpoint \<Rightarrow> real) \<Rightarrow> (real \<Rightarrow> real) \<Rightarrow> real" where
  "spec_noise env rnd = env SigRecord * (rnd 2 - 1) * env SigModulation"

subsection \<open>Observations and sample inputs\<close>

text \<open>Whether the mute check of \<^verbatim>\<open>update\<close> finds the track muted: a value other than 0.\<close>

definition muted :: "loop_state \<Rightarrow> bool" where
  "muted s = (case deref (mpr_sig_get_value s SigMute) of Inl e \<Rightarrow> False | Inr m \<Rightarrow> m \<noteq> 0)"

text \<open>
  The track \<^verbatim>\<open>Loop("t", dev, MPR_FLT, 1)\<close> as its constructor leaves it on a bus that
  reports the map ready at the first test.
\<close>

definition demo :: loop_state where
  "demo = set_defaults (Loop_create ([], []) ''t'' (Loop_init MPR_FLT 1))"

text \<open>Signal values for the feedback expression: playback (record 0) at length 1, division 16.\<close>

fun env_play :: "real \<Rightarrow> endpoint \<Rightarrow> real" where
  "env_play m SigLength = 1"
| "env_play m SigDivision = 16"
| "env_play m SigModulation = m"
| "env_play m e = 0"

definition hist_zero :: "real \<Rightarrow> real \<Rightarrow> real" where
  "hist_zero d c = 0"

definition rnd_high :: "real \<Rightarrow> real" where
  "rnd_high a = 3 / 2"

section \<open>Properties\<close>

subsection \<open>What one call of update does\<close>


lemmas bus_defs = mpr_sig_new_def mpr_sig_get_value_def mpr_sig_set_value_def mpr_sig_free_def
  mpr_map_new_from_str_def mpr_map_new_def mpr_obj_push_def mpr_dev_poll_def mpr_graph_add_cb_def
  printf_missed_def

lemma captures_append: "captures (xs @ ys) = captures xs @ captures ys"
  by (simp add: captures_def)

lemma diagnostics_append: "diagnostics (xs @ ys) = diagnostics xs @ diagnostics ys"
  by (simp add: diagnostics_def)

lemma out_writes_append: "out_writes (xs @ ys) = out_writes xs @ out_writes ys"
  by (simp add: out_writes_def)

lemma deref_Inr: "deref v = Inr x \<Longrightarrow> \<exists>xs. v = Some (x # xs)"
  by (cases v rule: deref.cases) simp_all

lemma to_int_Inr: "to_int x = Inr n \<Longrightarrow> n = trunc x"
  by (simp add: to_int_def split: if_splits)

lemma tick_now_Inr:
  "tick_now beats s = Inr now \<Longrightarrow> \<exists>d ds. vals s SigDivision = Some (d # ds) \<and> now = trunc (beats * d)"
proof -
  assume a: "tick_now beats s = Inr now"
  then obtain d where d: "deref (vals s SigDivision) = Inr d" and n: "to_int (beats * d) = Inr now"
    by (auto simp: tick_now_def mpr_sig_get_value_def split: sum.splits)
  from deref_Inr [OF d] obtain ds where "vals s SigDivision = Some (d # ds)" by blast
  with to_int_Inr [OF n] show ?thesis by blast
qed

lemma on_tick_fields:
  assumes "on_tick now s = Inr s'"
  shows "lastUpdate s' = now"
    and "vals s' = (vals s)(SigLocalSend := vals s SigIn)"
    and "calls s' = calls s @ (if now - lastUpdate s > 1 then [Printf_missed (now - lastUpdate s - 1)] else [])
            @ [Sig_set_value SigLocalSend (vals s SigIn)]"
  using assms
  by (auto simp: on_tick_def int_sub_def bus_defs Let_def split: sum.splits if_splits)

lemma mute_gate_fields:
  assumes "mute_gate s = Inr s'"
  shows "lastUpdate s' = lastUpdate s"
    and "vals s' = (if muted s then vals s else (vals s)(SigOut := vals s SigLocalReceive))"
    and "calls s' = calls s @ (if muted s then [] else [Sig_set_value SigOut (vals s SigLocalReceive)])"
  using assms
  by (auto simp: mute_gate_def muted_def bus_defs split: sum.splits if_splits)

lemma update_Inr_cases:
  assumes "update beats s = Inr s'"
  obtains now s1 where "tick_now beats s = Inr now"
    and "if now \<noteq> lastUpdate s then on_tick now s = Inr s1 else s1 = s"
    and "mute_gate s1 = Inr s'"
  using assms by (auto simp: update_def split: sum.splits if_splits)


lemma update_lastUpdate:
  assumes "update beats s = Inr s'" and "tick_now beats s = Inr now"
  shows "lastUpdate s' = now"
  using assms
  by (auto elim!: update_Inr_cases simp: on_tick_fields mute_gate_fields split: if_splits)

lemma update_calls:
  assumes "update beats s = Inr s'" and "tick_now beats s = Inr now"
  shows "calls s' = calls s
           @ (if now \<noteq> lastUpdate s
              then (if now - lastUpdate s > 1 then [Printf_missed (now - lastUpdate s - 1)] else [])
                   @ [Sig_set_value SigLocalSend (vals s SigIn)]
              else [])
           @ (if muted s then [] else [Sig_set_value SigOut (vals s SigLocalReceive)])"
proof -
  from assms obtain s1 where
    s1: "if now \<noteq> lastUpdate s then on_tick now s = Inr s1 else s1 = s"
    and g: "mute_gate s1 = Inr s'"
    by (auto elim!: update_Inr_cases)
  have v: "vals s1 SigMute = vals s SigMute" "vals s1 SigLocalReceive = vals s SigLocalReceive"
    using s1 by (auto simp: on_tick_fields split: if_splits)
  then have m: "muted s1 = muted s" by (simp add: muted_def mpr_sig_get_value_def)
  show ?thesis
    using s1 mute_gate_fields(3) [OF g] v m
    by (auto simp: on_tick_fields split: if_splits)
qed

lemma update_vals:
  assumes "update beats s = Inr s'" and "tick_now beats s = Inr now"
  shows "vals s' SigOut = (if muted s then vals s SigOut else vals s SigLocalReceive)"
    and "vals s' SigLocalSend = (if now \<noteq> lastUpdate s then vals s SigIn else vals s SigLocalSend)"
    and "e \<noteq> SigOut \<Longrightarrow> e \<noteq> SigLocalSend \<Longrightarrow> vals s' e = vals s e"
proof -
  from assms obtain s1 where
    s1: "if now \<noteq> lastUpdate s then on_tick now s = Inr s1 else s1 = s"
    and g: "mute_gate s1 = Inr s'"
    by (auto elim!: update_Inr_cases)
  have v: "vals s1 SigMute = vals s SigMute" "vals s1 SigLocalReceive = vals s SigLocalReceive"
    "vals s1 SigOut = vals s SigOut"
    using s1 by (auto simp: on_tick_fields split: if_splits)
  then have m: "muted s1 = muted s" by (simp add: muted_def mpr_sig_get_value_def)
  show "vals s' SigOut = (if muted s then vals s SigOut else vals s SigLocalReceive)"
    using mute_gate_fields(2) [OF g] v m by simp
  show "vals s' SigLocalSend = (if now \<noteq> lastUpdate s then vals s SigIn else vals s SigLocalSend)"
    using s1 mute_gate_fields(2) [OF g] by (auto simp: on_tick_fields split: if_splits)
  show "e \<noteq> SigOut \<Longrightarrow> e \<noteq> SigLocalSend \<Longrightarrow> vals s' e = vals s e"
    using s1 mute_gate_fields(2) [OF g] by (auto simp: on_tick_fields split: if_splits)
qed

lemma update_tick_defined:
  assumes "update beats s = Inr s'"
  shows "\<exists>now. tick_now beats s = Inr now"
  using assms by (auto elim!: update_Inr_cases)

lemma update_returns:
  assumes "vals s SigDivision = Some (d # ds)" and "vals s SigMute = Some (m # ms)"
    and "INT_MIN \<le> trunc (beats * d)" and "trunc (beats * d) \<le> INT_MAX"
    and "INT_MIN \<le> trunc (beats * d) - lastUpdate s" and "trunc (beats * d) - lastUpdate s \<le> INT_MAX"
  shows "\<exists>s'. update beats s = Inr s'"
  using assms
  by (simp add: update_def tick_now_def to_int_def on_tick_def int_sub_def mute_gate_def bus_defs Let_def)

lemma tick_now_eq:
  assumes "vals s SigDivision = Some (d # ds)"
    and "INT_MIN \<le> trunc (beats * d)" and "trunc (beats * d) \<le> INT_MAX"
  shows "tick_now beats s = Inr (trunc (beats * d))"
  using assms by (simp add: tick_now_def to_int_def mpr_sig_get_value_def)

lemma trunc_mono: "x \<le> y \<Longrightarrow> trunc x \<le> trunc y"
proof -
  assume xy: "x \<le> y"
  show ?thesis
  proof (cases "0 \<le> x")
    case True
    with xy have "0 \<le> y" by simp
    with True xy show ?thesis by (simp add: trunc_def floor_mono)
  next
    case False
    show ?thesis
    proof (cases "0 \<le> y")
      case True
      from False have "\<lceil>x\<rceil> \<le> 0" by (simp add: ceiling_le_zero)
      moreover from True have "0 \<le> \<lfloor>y\<rfloor>" by simp
      ultimately have "\<lceil>x\<rceil> \<le> \<lfloor>y\<rfloor>" by linarith
      then show ?thesis using False True by (simp add: trunc_def)
    next
      case n: False
      with False xy show ?thesis by (simp add: trunc_def ceiling_mono)
    qed
  qed
qed

lemma trunc_floor: "0 \<le> x \<Longrightarrow> trunc x = \<lfloor>x\<rfloor>"
  by (simp add: trunc_def)

lemma floor_zero_trunc: "\<lfloor>x\<rfloor> = 0 \<Longrightarrow> trunc x = 0"
  by (simp add: trunc_def) linarith

lemma ticks_sorted:
  assumes "0 \<le> d" and "sorted_wrt (<) bs"
  shows "sorted (map (\<lambda>b. trunc (b * d)) bs)"
  using assms(2)
proof (induction bs)
  case Nil
  then show ?case by simp
next
  case (Cons b bs)
  have "trunc (b * d) \<le> trunc (c * d)" if "c \<in> set bs" for c
  proof -
    from Cons.prems that have "b < c" by simp
    with assms(1) have "b * d \<le> c * d" by (simp add: mult_right_mono)
    then show ?thesis by (rule trunc_mono)
  qed
  with Cons show ?case by simp
qed


subsection \<open>The constructor and its wait for the map\<close>

lemma poll_n_fields:
  "polls ((mpr_dev_poll ^^ k) s) = polls s + k"
  "calls ((mpr_dev_poll ^^ k) s) = calls s @ replicate k Dev_poll"
  "vals ((mpr_dev_poll ^^ k) s) = vals s"
  "sigs ((mpr_dev_poll ^^ k) s) = sigs s"
  "lastUpdate ((mpr_dev_poll ^^ k) s) = lastUpdate s"
  "loopMap ((mpr_dev_poll ^^ k) s) = loopMap s"
  "maps ((mpr_dev_poll ^^ k) s) = maps s"
  by (induction k) (simp_all add: mpr_dev_poll_def replicate_append_same)

lemma wait_ready_after:
  "ready (polls s + k) \<Longrightarrow> \<forall>j<k. \<not> ready (polls s + j) \<Longrightarrow>
   wait_ready ready s = Some ((mpr_dev_poll ^^ k) s)"
proof (induction k arbitrary: s)
  case 0
  then show ?case by (simp add: wait_ready.simps)
next
  case (Suc k)
  from Suc.prems(2) have n: "\<not> ready (polls s)" by force
  have p: "polls (mpr_dev_poll s) = Suc (polls s)" by (simp add: mpr_dev_poll_def)
  have "wait_ready ready (mpr_dev_poll s) = Some ((mpr_dev_poll ^^ k) (mpr_dev_poll s))"
  proof (rule Suc.IH)
    show "ready (polls (mpr_dev_poll s) + k)" using Suc.prems(1) p by simp
    show "\<forall>j<k. \<not> ready (polls (mpr_dev_poll s) + j)"
    proof (intro allI impI)
      fix j assume "j < k"
      then have "Suc j < Suc k" by simp
      with Suc.prems(2) have "\<not> ready (polls s + Suc j)" by blast
      then show "\<not> ready (polls (mpr_dev_poll s) + j)" using p by simp
    qed
  qed
  with n show ?case
    by (subst wait_ready.simps) (simp add: funpow_swap1)
qed

lemma wait_ready_Some_ready:
  assumes "wait_ready ready s = Some s'"
  shows "\<exists>j. ready (polls s + j)"
  using assms
proof (induction rule: wait_ready.raw_induct[rotated 1, consumes 1])
  case (1 wait ready s s')
  show ?case
  proof (cases "ready (polls s)")
    case True
    then have "ready (polls s + 0)" by simp
    then show ?thesis by blast
  next
    case False
    with 1(2) have "wait ready (mpr_dev_poll s) = Some s'" by simp
    from 1(1) [OF this] obtain j where "ready (polls (mpr_dev_poll s) + j)" by blast
    then have "ready (polls s + Suc j)" by (simp add: mpr_dev_poll_def)
    then show ?thesis by blast
  qed
qed

lemma wait_ready_Some:
  assumes "wait_ready ready s = Some s'"
  shows "\<exists>k. ready (polls s + k) \<and> (\<forall>j<k. \<not> ready (polls s + j)) \<and> s' = (mpr_dev_poll ^^ k) s"
proof -
  from wait_ready_Some_ready [OF assms] obtain j where j: "ready (polls s + j)" by blast
  define k where "k = (LEAST i. ready (polls s + i))"
  have r: "ready (polls s + k)" unfolding k_def using j by (rule LeastI)
  have l: "\<forall>i<k. \<not> ready (polls s + i)" unfolding k_def using not_less_Least by blast
  from wait_ready_after [OF r l] assms have "s' = (mpr_dev_poll ^^ k) s" by simp
  with r l show ?thesis by blast
qed

lemma wait_ready_None_iff:
  "wait_ready ready s = None \<longleftrightarrow> (\<forall>j. \<not> ready (polls s + j))"
proof
  assume n: "wait_ready ready s = None"
  show "\<forall>j. \<not> ready (polls s + j)"
  proof (rule ccontr)
    assume "\<not> (\<forall>j. \<not> ready (polls s + j))"
    then obtain j where j: "ready (polls s + j)" by blast
    define k where "k = (LEAST i. ready (polls s + i))"
    have r: "ready (polls s + k)" unfolding k_def using j by (rule LeastI)
    have l: "\<forall>i<k. \<not> ready (polls s + i)" unfolding k_def using not_less_Least by blast
    from wait_ready_after [OF r l] n show False by simp
  qed
next
  assume a: "\<forall>j. \<not> ready (polls s + j)"
  show "wait_ready ready s = None"
  proof (cases "wait_ready ready s")
    case None
    then show ?thesis .
  next
    case (Some s')
    from wait_ready_Some_ready [OF Some] a show ?thesis by blast
  qed
qed

lemmas create_defs = Loop_create_def Loop_init_def create_map_def
  create_vector_signals_def create_control_signals_def control_props_def vector_props_def

lemma Loop_create_polls: "polls (Loop_create mem name (Loop_init type n)) = 0"
  by (simp add: create_defs bus_defs Let_def)

lemma Loop_create_lastUpdate: "lastUpdate (Loop_create mem name (Loop_init type n)) = 0"
  by (simp add: create_defs bus_defs Let_def)

lemma Loop_create_vals:
  "vals (Loop_create mem name (Loop_init type n)) =
     (\<lambda>e. if e = SigLength \<or> e = SigDivision then None
          else if e = SigRecord \<or> e = SigModulation \<or> e = SigMute then Some [0]
          else Some (at_sigMin (fst mem) type n))"
proof (rule ext)
  fix e
  show "vals (Loop_create mem name (Loop_init type n)) e =
     (if e = SigLength \<or> e = SigDivision then None
      else if e = SigRecord \<or> e = SigModulation \<or> e = SigMute then Some [0]
      else Some (at_sigMin (fst mem) type n))"
    by (cases e) (simp_all add: create_defs bus_defs Let_def)
qed

lemma Loop_create_calls:
  "calls (Loop_create mem name (Loop_init type n)) =
   [Sig_new SigRecord (control_props (sigName name ''control/record'') MPR_FLT None 0 1),
    Sig_set_value SigRecord (Some [0]),
    Sig_new SigLength (control_props (sigName name ''control/length'') MPR_FLT (Some ''beats'') 0 100),
    Sig_new SigDivision (control_props (sigName name ''control/division'') MPR_FLT (Some ''ppqn'') 1 96),
    Sig_new SigModulation (control_props (sigName name ''control/modulation'') MPR_FLT None 0 1),
    Sig_set_value SigModulation (Some [0]),
    Sig_new SigMute (control_props (sigName name ''control/mute'') MPR_INT32 None 0 1),
    Sig_set_value SigMute (Some [0]),
    Sig_new SigIn (vector_props (sigName name ''input'') MPR_DIR_IN mem (Loop_init type n)),
    Sig_set_value SigIn (Some (at_sigMin (fst mem) type n)),
    Sig_new SigOut (vector_props (sigName name ''output'') MPR_DIR_OUT mem (Loop_init type n)),
    Sig_set_value SigOut (Some (at_sigMin (fst mem) type n)),
    Sig_new SigLocalSend (vector_props (sigName name ''local/send'') MPR_DIR_OUT mem (Loop_init type n)),
    Sig_set_value SigLocalSend (Some (at_sigMin (fst mem) type n)),
    Sig_new SigLocalReceive (vector_props (sigName name ''local/recv'') MPR_DIR_IN mem (Loop_init type n)),
    Sig_set_value SigLocalReceive (Some (at_sigMin (fst mem) type n)),
    Obj_push (Map_from_str loopMap_str loopMap_args)]"
  by (simp add: create_defs bus_defs Let_def)

lemma Loop_create_sigs:
  "map fst (sigs (Loop_create mem name (Loop_init type n))) =
     [SigRecord, SigLength, SigDivision, SigModulation, SigMute, SigIn, SigOut, SigLocalSend, SigLocalReceive]"
  "observable (Loop_create mem name (Loop_init type n)) =
     [sigName name ''control/record'', sigName name ''control/length'', sigName name ''control/division'',
      sigName name ''control/modulation'', sigName name ''control/mute'', sigName name ''input'',
      sigName name ''output'', sigName name ''local/send'', sigName name ''local/recv'']"
  by (simp_all add: create_defs bus_defs Let_def observable_def)

lemma Loop_create_loopMap:
  "loopMap (Loop_create mem name (Loop_init type n)) = Some (Map_from_str loopMap_str loopMap_args)"
  "maps (Loop_create mem name (Loop_init type n)) = [Map_from_str loopMap_str loopMap_args]"
  by (simp_all add: create_defs bus_defs Let_def)

lemma Loop_ctor_Some:
  assumes "Loop_ctor ready mem name type n = Some s"
  shows "\<exists>k. ready k \<and> (\<forall>j<k. \<not> ready j) \<and>
           s = set_defaults ((mpr_dev_poll ^^ k) (Loop_create mem name (Loop_init type n)))"
proof -
  let ?P = "Loop_create mem name (Loop_init type n)"
  from assms obtain s1 where w: "wait_ready ready ?P = Some s1" and s: "s = set_defaults s1"
    by (auto simp: Loop_ctor_def split: option.splits)
  from wait_ready_Some [OF w] show ?thesis
    using s by (auto simp: Loop_create_polls)
qed

lemma Loop_ctor_None_iff:
  "Loop_ctor ready mem name type n = None \<longleftrightarrow> (\<forall>k. \<not> ready k)"
  using wait_ready_None_iff [of ready "Loop_create mem name (Loop_init type n)"]
  by (auto simp: Loop_ctor_def Loop_create_polls split: option.splits)

lemma Loop_ctor_after:
  assumes "ready k" and "\<forall>j<k. \<not> ready j"
  shows "Loop_ctor ready mem name type n =
           Some (set_defaults ((mpr_dev_poll ^^ k) (Loop_create mem name (Loop_init type n))))"
  using wait_ready_after [of ready "Loop_create mem name (Loop_init type n)" k] assms
  by (simp add: Loop_ctor_def Loop_create_polls)

lemma set_defaults_fields:
  "vals (set_defaults s) = (vals s)(SigLength := Some [1], SigDivision := Some [16])"
  "calls (set_defaults s) = calls s @ [Sig_set_value SigLength (Some [1]), Sig_set_value SigDivision (Some [16])]"
  "polls (set_defaults s) = polls s" "lastUpdate (set_defaults s) = lastUpdate s"
  "sigs (set_defaults s) = sigs s" "maps (set_defaults s) = maps s" "loopMap (set_defaults s) = loopMap s"
  by (simp_all add: set_defaults_def bus_defs)

lemma demo_ctor: "Loop_ctor (\<lambda>k. True) ([], []) ''t'' MPR_FLT 1 = Some demo"
  using Loop_ctor_after [of "\<lambda>k. True" 0 "([], [])" "''t''" MPR_FLT 1] by (simp add: demo_def)

lemma demo_fields:
  "vals demo SigDivision = Some [16]" "vals demo SigMute = Some [0]" "vals demo SigIn = Some [0]"
  "vals demo SigLocalReceive = Some [0]" "vals demo SigOut = Some [0]" "vals demo SigLength = Some [1]"
  "vals demo SigLocalSend = Some [0]"
  "lastUpdate demo = 0"
  by (simp_all add: demo_def set_defaults_fields Loop_create_vals Loop_create_lastUpdate at_sigMin_def)

lemmas eval_defs = demo_def set_defaults_def create_defs bus_defs update_def tick_now_def to_int_def
  on_tick_def int_sub_def mute_gate_def trunc_def INT_MIN_def INT_MAX_def Let_def at_sigMin_def
  at_sigMax_def bus_writes_def bus_write_def captures_def diagnostics_def out_writes_def

subsection \<open>The feedback relation\<close>

text \<open>
  The syntax tree \<open>loopMap_prog\<close> prints to the expression string of the source, and its
  placeholders take the signals in the order of the argument list of the source. The
  constructor pushes exactly this map.
\<close>

lemma loopMap_prog_shows: "show_prog loopMap_prog = (loopMap_str, loopMap_args)"
  by (simp add: loopMap_prog_def loopMap_str_def loopMap_args_def)

lemma ctor_pushes_loopMap:
  assumes "Loop_ctor ready mem name type n = Some s"
  shows "loopMap s = Some (Map_from_str (fst (show_prog loopMap_prog)) (snd (show_prog loopMap_prog)))"
    and "maps s = [Map_from_str (fst (show_prog loopMap_prog)) (snd (show_prog loopMap_prog))]"
  using Loop_ctor_Some [OF assms]
  by (auto simp: set_defaults_fields poll_n_fields Loop_create_loopMap loopMap_prog_shows)

text \<open>
  Claim C1, as amended. In every evaluation of the feedback relation there is exactly one
  history look-up, that of the recirculation term; its offset is minus the product of
  the length signal and the division signal, and its history size is 100. The record gate
  does not enter the delay.
\<close>

theorem feedback_delay:
  "feedback_lookups env hist rnd = [(- (env SigLength * env SigDivision), 100)]"
  by (simp add: feedback_lookups_def loopMap_prog_def)

text \<open>
  Claim C1 as stated fails: with record 0, length 1 and division 16 the product
  record * division is 0, while the relation looks 16 samples back.
\<close>

theorem feedback_delay_counterexample:
  "env_play 0 SigRecord = 0 \<and> spec_delay (env_play 0) = 0 \<and>
   feedback_lookups (env_play 0) hist_zero rnd_high = [(- 16, 100)]"
  by (simp add: spec_delay_def feedback_lookups_def loopMap_prog_def)

text \<open>
  Claim C2, as amended. The value that the feedback relation assigns to local-recv is
  record * local-send + (1 - record) * history + modulation * (uniform(2.0) - 1): the
  noise term is scaled by the modulation amount alone, not by the record gate.
\<close>

theorem feedback_noise:
  "feedback_output env hist rnd =
     [(SigLocalReceive,
       env SigRecord * env SigLocalSend
       + (1 - env SigRecord) * hist (- (env SigLength * env SigDivision)) 100
       + env SigModulation * (rnd 2 - 1))]"
  by (simp add: feedback_output_def loopMap_prog_def)

text \<open>
  Claim C2 as stated fails: with record 0, an empty history and a draw of 3/2, the output
  is 0 at modulation 0 and 1/2 at modulation 1, so noise is added although the record
  gate is closed; the term record * (uniform(2.0) - 1) * modulation of the claim is 0.
\<close>

theorem feedback_noise_counterexample:
  "env_play 1 SigRecord = 0 \<and> env_play 0 SigRecord = 0 \<and> spec_noise (env_play 1) rnd_high = 0 \<and>
   feedback_output (env_play 0) hist_zero rnd_high = [(SigLocalReceive, 0)] \<and>
   feedback_output (env_play 1) hist_zero rnd_high = [(SigLocalReceive, 1 / 2)]"
  by (simp add: spec_noise_def feedback_output_def loopMap_prog_def hist_zero_def rnd_high_def)

subsection \<open>The tick scheduler\<close>

text \<open>
  Claim C3, as amended. For a call of update whose derived tick index is not greater than
  the stored one: the stored index becomes the derived one (so it never passes it) and no
  diagnostic is printed; when the two are equal nothing is captured; when the derived
  index is smaller (a rewind) the input is captured to local-send once.
\<close>

theorem update_tick_not_ahead:
  assumes "update beats s = Inr s'" and "tick_now beats s = Inr now" and "now \<le> lastUpdate s"
  shows "lastUpdate s' = now \<and>
         diagnostics (calls s') = diagnostics (calls s) \<and>
         captures (calls s') = captures (calls s) @ (if now < lastUpdate s then [vals s SigIn] else [])"
  using assms update_lastUpdate [OF assms(1,2)] update_calls [OF assms(1,2)]
  by (simp add: captures_def diagnostics_def)

text \<open>
  Claim C3, an instance: the track of \<open>demo\<close> is updated at beat 1/5 (tick 3) and then at
  beat 0 (tick 0).
\<close>

theorem update_tick_not_ahead_witness:
  "lastUpdate (projr (run [([], 1 / 5), ([], 0)] demo)) = 0 \<and>
   diagnostics (calls (projr (run [([], 1 / 5), ([], 0)] demo)))
     = diagnostics (calls (projr (run [([], 1 / 5)] demo))) \<and>
   captures (calls (projr (run [([], 1 / 5), ([], 0)] demo)))
     = captures (calls (projr (run [([], 1 / 5)] demo))) @ [Some [0]]"
proof -
  let ?s = "projr (run [([], 1 / 5)] demo)"
  let ?s' = "projr (run [([], 1 / 5), ([], 0)] demo)"
  have a: "update 0 ?s = Inr ?s'" by (simp add: eval_defs)
  have b: "tick_now 0 ?s = Inr 0" by (simp add: eval_defs)
  have c: "0 \<le> lastUpdate ?s" by (simp add: eval_defs)
  have d: "0 < lastUpdate ?s" by (simp add: eval_defs)
  have e: "vals ?s SigIn = Some [0]" by (simp add: eval_defs)
  show ?thesis using update_tick_not_ahead [OF a b c] d e by simp
qed

text \<open>
  Claim C3 as stated fails: after the update at beat 1/5 the stored index is 3; the update
  at beat 0 derives tick 0, which is smaller, and the log shows one more capture to
  local-send. (The first entry of each list is the value that the constructor gave
  local-send, the second the capture at tick 3.)
\<close>

theorem rewind_counterexample:
  "run_ticks [([], 1 / 5), ([], 0)] demo = [Inr 3, Inr 0] \<and>
   map_sum id (\<lambda>s. (lastUpdate s, captures (calls s)))
     (run [([], 1 / 5)] demo) = Inr (3, [Some [0], Some [0]]) \<and>
   map_sum id (\<lambda>s. (lastUpdate s, captures (calls s)))
     (run [([], 1 / 5), ([], 0)] demo) = Inr (0, [Some [0], Some [0], Some [0]])"
  by (simp add: eval_defs)

lemma bus_writes_fields:
  "calls (bus_writes ws s) = calls s"
  "lastUpdate (bus_writes ws s) = lastUpdate s"
  "e \<notin> fst ` set ws \<Longrightarrow> vals (bus_writes ws s) e = vals s e"
  unfolding bus_writes_def
  by (induction ws arbitrary: s) (auto simp: bus_write_def)

lemma run_ticks_plain:
  assumes "run (map (\<lambda>b. ([], b)) bs) s = Inr s'" and "vals s SigDivision = Some (d # ds)"
  shows "run_ticks (map (\<lambda>b. ([], b)) bs) s = map (\<lambda>b. Inr (trunc (b * d))) bs"
  using assms
proof (induction bs arbitrary: s)
  case Nil
  then show ?case by simp
next
  case (Cons b bs)
  have w: "bus_writes [] s = s" by (simp add: bus_writes_def)
  from Cons.prems(1) obtain s1 where u: "update b s = Inr s1"
    and r: "run (map (\<lambda>b. ([], b)) bs) s1 = Inr s'"
    by (auto simp: w split: sum.splits)
  from update_tick_defined [OF u] obtain now where t: "tick_now b s = Inr now" by blast
  from tick_now_Inr [OF t] Cons.prems(2) have n: "now = trunc (b * d)" by auto
  have "vals s1 SigDivision = Some (d # ds)"
    using update_vals(3) [OF u t, of SigDivision] Cons.prems(2) by simp
  from Cons.IH [OF r this] show ?case using u t n by (simp add: w)
qed

text \<open>
  Claim C4, as amended. Every call of update that returns reads the division signal at that
  call and derives the tick index by discarding the fractional part of beats * division
  (truncation toward zero, which is the floor when the product is not negative); the
  stored index becomes that tick. For a division that stays fixed and is not negative, a
  strictly increasing sequence of beat positions yields a non-decreasing sequence of
  ticks. A call whose tick exceeds the stored index by k > 1 prints exactly one
  diagnostic, with count k - 1, and any other call prints none. On each change of the
  tick the current value of the input signal is captured and set on local-send. With
  division 16 the beats 0, 1/20, 1/5 give the ticks 0, 0, 3 and the single diagnostic 2.
\<close>

theorem tick_derivation:
  "(\<forall>beats s s'. update beats s = Inr s' \<longrightarrow>
      (\<exists>d ds. vals s SigDivision = Some (d # ds) \<and>
         tick_now beats s = Inr (trunc (beats * d)) \<and>
         lastUpdate s' = trunc (beats * d) \<and>
         (0 \<le> beats * d \<longrightarrow> lastUpdate s' = \<lfloor>beats * d\<rfloor>) \<and>
         diagnostics (calls s') = diagnostics (calls s) @
           (if trunc (beats * d) - lastUpdate s > 1
            then [trunc (beats * d) - lastUpdate s - 1] else []) \<and>
         (trunc (beats * d) \<noteq> lastUpdate s \<longrightarrow>
            captures (calls s') = captures (calls s) @ [vals s SigIn] \<and>
            vals s' SigLocalSend = vals s SigIn)))
   \<and> (\<forall>bs s s' d ds. run (map (\<lambda>b. ([], b)) bs) s = Inr s' \<and> vals s SigDivision = Some (d # ds) \<and>
         0 \<le> d \<and> sorted_wrt (<) bs \<longrightarrow>
         run_ticks (map (\<lambda>b. ([], b)) bs) s = map (\<lambda>b. Inr (trunc (b * d))) bs \<and>
         sorted (map (\<lambda>b. trunc (b * d)) bs))
   \<and> vals demo SigDivision = Some [16]
   \<and> run_ticks [([], 0), ([], 1 / 20), ([], 1 / 5)] demo = [Inr 0, Inr 0, Inr 3]
   \<and> map_sum id (\<lambda>s. diagnostics (calls s)) (run [([], 0), ([], 1 / 20), ([], 1 / 5)] demo) = Inr [2]"
proof (intro conjI allI impI)
  fix beats s s'
  assume u: "update beats s = Inr s'"
  from update_tick_defined [OF u] obtain now where t: "tick_now beats s = Inr now" by blast
  from tick_now_Inr [OF t] obtain d ds where d: "vals s SigDivision = Some (d # ds)"
    and n: "now = trunc (beats * d)" by blast
  have 1: "tick_now beats s = Inr (trunc (beats * d))" using t n by simp
  have 2: "lastUpdate s' = trunc (beats * d)" using update_lastUpdate [OF u t] n by simp
  have 3: "0 \<le> beats * d \<longrightarrow> lastUpdate s' = \<lfloor>beats * d\<rfloor>" using 2 by (simp add: trunc_floor)
  have 4: "diagnostics (calls s') = diagnostics (calls s) @
           (if trunc (beats * d) - lastUpdate s > 1
            then [trunc (beats * d) - lastUpdate s - 1] else [])"
    using update_calls [OF u t] n by (simp add: diagnostics_def)
  have 5: "trunc (beats * d) \<noteq> lastUpdate s \<longrightarrow>
            captures (calls s') = captures (calls s) @ [vals s SigIn] \<and>
            vals s' SigLocalSend = vals s SigIn"
    using update_calls [OF u t] update_vals(2) [OF u t] n by (simp add: captures_def)
  from d 1 2 3 4 5
  show "\<exists>d ds. vals s SigDivision = Some (d # ds) \<and>
         tick_now beats s = Inr (trunc (beats * d)) \<and>
         lastUpdate s' = trunc (beats * d) \<and>
         (0 \<le> beats * d \<longrightarrow> lastUpdate s' = \<lfloor>beats * d\<rfloor>) \<and>
         diagnostics (calls s') = diagnostics (calls s) @
           (if trunc (beats * d) - lastUpdate s > 1
            then [trunc (beats * d) - lastUpdate s - 1] else []) \<and>
         (trunc (beats * d) \<noteq> lastUpdate s \<longrightarrow>
            captures (calls s') = captures (calls s) @ [vals s SigIn] \<and>
            vals s' SigLocalSend = vals s SigIn)"
    by blast
next
  fix bs s s' d ds
  assume a: "run (map (\<lambda>b. ([], b)) bs) s = Inr s' \<and> vals s SigDivision = Some (d # ds) \<and>
         0 \<le> d \<and> sorted_wrt (<) bs"
  then show "run_ticks (map (\<lambda>b. ([], b)) bs) s = map (\<lambda>b. Inr (trunc (b * d))) bs"
    using run_ticks_plain by blast
  from a show "sorted (map (\<lambda>b. trunc (b * d)) bs)" using ticks_sorted by blast
next
  show "vals demo SigDivision = Some [16]" by (simp add: demo_fields)
  show "run_ticks [([], 0), ([], 1 / 20), ([], 1 / 5)] demo = [Inr 0, Inr 0, Inr 3]"
    by (simp add: eval_defs)
  show "map_sum id (\<lambda>s. diagnostics (calls s)) (run [([], 0), ([], 1 / 20), ([], 1 / 5)] demo) = Inr [2]"
    by (simp add: eval_defs)
qed

text \<open>Claim C4, an instance: the track of \<open>demo\<close> updated at beat 1/5, and the three beats.\<close>

theorem tick_derivation_witness:
  "lastUpdate (projr (update (1 / 5) demo)) = 3 \<and>
   diagnostics (calls (projr (update (1 / 5) demo))) = diagnostics (calls demo) @ [2] \<and>
   captures (calls (projr (update (1 / 5) demo))) = captures (calls demo) @ [Some [0]] \<and>
   run_ticks (map (\<lambda>b. ([], b)) [0, 1 / 20, 1 / 5]) demo = [Inr 0, Inr 0, Inr 3] \<and>
   sorted (map (\<lambda>b. trunc (b * 16)) [0, 1 / 20, 1 / 5])"
proof -
  let ?s' = "projr (update (1 / 5) demo)"
  have u: "update (1 / 5) demo = Inr ?s'" by (simp add: eval_defs)
  from tick_derivation u obtain d ds where d: "vals demo SigDivision = Some (d # ds)"
    and l: "lastUpdate ?s' = trunc (1 / 5 * d)"
    and g: "diagnostics (calls ?s') = diagnostics (calls demo) @
           (if trunc (1 / 5 * d) - lastUpdate demo > 1
            then [trunc (1 / 5 * d) - lastUpdate demo - 1] else [])"
    and c: "trunc (1 / 5 * d) \<noteq> lastUpdate demo \<longrightarrow>
            captures (calls ?s') = captures (calls demo) @ [vals demo SigIn]"
    by blast
  from d have d16: "d = 16" by (simp add: demo_fields)
  have t: "trunc (1 / 5 * 16) = 3" by (simp add: trunc_def)
  let ?bs = "[0, 1 / 20, 1 / 5] :: real list"
  have r: "run (map (\<lambda>b. ([], b)) ?bs) demo = Inr (projr (run (map (\<lambda>b. ([], b)) ?bs) demo))"
    by (simp add: eval_defs)
  from tick_derivation have m: "\<And>bs s s' d ds.
      run (map (\<lambda>b. ([], b)) bs) s = Inr s' \<Longrightarrow> vals s SigDivision = Some (d # ds) \<Longrightarrow>
      0 \<le> d \<Longrightarrow> sorted_wrt (<) bs \<Longrightarrow>
      run_ticks (map (\<lambda>b. ([], b)) bs) s = map (\<lambda>b. Inr (trunc (b * d))) bs \<and>
      sorted (map (\<lambda>b. trunc (b * d)) bs)"
    by blast
  have z: "(0::real) \<le> 16" by simp
  have inc: "sorted_wrt (<) ?bs" by simp
  have tt: "map (\<lambda>b. Inr (trunc (b * 16))) ?bs = [Inr 0, Inr 0, Inr 3 :: error + int]"
    by (simp add: trunc_def)
  from m [OF r demo_fields(1) z inc] tt l g c d16 t
  show ?thesis by (simp add: demo_fields)
qed

text \<open>
  Claim C4 as stated fails for a negative beat position: at beat -1/20 with division 16
  the floor of the product is -1, but update derives tick 0, which is the stored index,
  so nothing is captured and the stored index stays 0.
\<close>

theorem floor_counterexample:
  "vals demo SigDivision = Some [16] \<and> lastUpdate demo = 0 \<and>
   \<lfloor>(- 1 / 20) * 16 :: real\<rfloor> = - 1 \<and>
   tick_now (- 1 / 20) demo = Inr 0 \<and>
   map_sum id (\<lambda>s. (lastUpdate s, captures (calls s) = captures (calls demo)))
     (update (- 1 / 20) demo) = Inr (0, True)"
  by (simp add: eval_defs)

subsection \<open>The mute gate\<close>

lemma bus_writes_muted:
  "SigMute \<notin> fst ` set ws \<Longrightarrow> muted (bus_writes ws s) = muted s"
  by (simp add: muted_def mpr_sig_get_value_def bus_writes_fields)

lemma update_out_writes:
  assumes "update beats s = Inr s'"
  shows "out_writes (calls s') = out_writes (calls s) @ (if muted s then [] else [vals s SigLocalReceive])"
proof -
  from update_tick_defined [OF assms] obtain now where t: "tick_now beats s = Inr now" by blast
  show ?thesis using update_calls [OF assms t] by (auto simp: out_writes_def)
qed

lemma update_out:
  assumes "update beats s = Inr s'"
  shows "vals s' SigOut = (if muted s then vals s SigOut else vals s SigLocalReceive)"
proof -
  from update_tick_defined [OF assms] obtain now where t: "tick_now beats s = Inr now" by blast
  show ?thesis using update_vals(1) [OF assms t] .
qed

lemma run_muted_out:
  assumes "run steps s = Inr s'" and "\<forall>m\<in>set (run_muted steps s). m"
    and "\<forall>st\<in>set steps. \<forall>w\<in>set (fst st). fst w \<noteq> SigOut"
  shows "vals s' SigOut = vals s SigOut \<and> out_writes (calls s') = out_writes (calls s)"
  using assms
proof (induction steps arbitrary: s)
  case Nil
  then show ?case by simp
next
  case (Cons st rest)
  let ?s0 = "bus_writes (fst st) s"
  from Cons.prems(1) obtain s1 where u: "update (snd st) ?s0 = Inr s1"
    and r: "run rest s1 = Inr s'"
    by (auto split: sum.splits)
  from Cons.prems(2) u have m: "muted ?s0" and ms: "\<forall>m\<in>set (run_muted rest s1). m"
    by (auto simp: muted_def)
  from Cons.prems(3) have no: "SigOut \<notin> fst ` set (fst st)"
    and nos: "\<forall>st\<in>set rest. \<forall>w\<in>set (fst st). fst w \<noteq> SigOut"
    by auto
  have a: "vals s1 SigOut = vals s SigOut"
    using update_out [OF u] m bus_writes_fields(3) [OF no] by simp
  have b: "out_writes (calls s1) = out_writes (calls s)"
    using update_out_writes [OF u] m by (simp add: bus_writes_fields)
  from Cons.IH [OF r ms nos] a b show ?case by simp
qed

text \<open>
  Claim C5. A call of update that finds the track muted leaves the value of the output
  signal as it was and does not set it; so does every run of calls that all find the
  track muted, whatever the beat positions are and whatever the bus writes to the other
  signals between the calls. A muted call still captures the input to local-send when the
  tick changes. A call that finds the track not muted sets the output signal to the
  current value of local-recv.
\<close>

theorem mute_gate_output:
  "(\<forall>beats s s'. update beats s = Inr s' \<and> muted s \<longrightarrow>
      vals s' SigOut = vals s SigOut \<and> out_writes (calls s') = out_writes (calls s))
   \<and> (\<forall>steps s s'. run steps s = Inr s' \<and> (\<forall>m\<in>set (run_muted steps s). m) \<and>
         (\<forall>st\<in>set steps. \<forall>w\<in>set (fst st). fst w \<noteq> SigOut) \<longrightarrow>
         vals s' SigOut = vals s SigOut \<and> out_writes (calls s') = out_writes (calls s))
   \<and> (\<forall>beats s s' now. update beats s = Inr s' \<and> muted s \<and> tick_now beats s = Inr now \<and>
         now \<noteq> lastUpdate s \<longrightarrow>
         captures (calls s') = captures (calls s) @ [vals s SigIn] \<and>
         vals s' SigLocalSend = vals s SigIn)
   \<and> (\<forall>beats s s'. update beats s = Inr s' \<and> \<not> muted s \<longrightarrow>
         vals s' SigOut = vals s SigLocalReceive \<and>
         out_writes (calls s') = out_writes (calls s) @ [vals s SigLocalReceive])"
proof (intro conjI allI impI)
  fix beats s s'
  assume a: "update beats s = Inr s' \<and> muted s"
  then have u: "update beats s = Inr s'" and m: "muted s" by simp_all
  show "vals s' SigOut = vals s SigOut" using update_out [OF u] m by simp
  show "out_writes (calls s') = out_writes (calls s)" using update_out_writes [OF u] m by simp
next
  fix steps s s'
  assume a: "run steps s = Inr s' \<and> (\<forall>m\<in>set (run_muted steps s). m) \<and>
         (\<forall>st\<in>set steps. \<forall>w\<in>set (fst st). fst w \<noteq> SigOut)"
  then have "vals s' SigOut = vals s SigOut \<and> out_writes (calls s') = out_writes (calls s)"
    using run_muted_out by blast
  then show "vals s' SigOut = vals s SigOut" and "out_writes (calls s') = out_writes (calls s)"
    by simp_all
next
  fix beats s s' now
  assume a: "update beats s = Inr s' \<and> muted s \<and> tick_now beats s = Inr now \<and> now \<noteq> lastUpdate s"
  then have u: "update beats s = Inr s'" and t: "tick_now beats s = Inr now"
    and n: "now \<noteq> lastUpdate s" and m: "muted s" by simp_all
  show "captures (calls s') = captures (calls s) @ [vals s SigIn]"
    using update_calls [OF u t] n m by (auto simp: captures_def)
  show "vals s' SigLocalSend = vals s SigIn"
    using update_vals(2) [OF u t] n by simp
next
  fix beats s s'
  assume a: "update beats s = Inr s' \<and> \<not> muted s"
  then have u: "update beats s = Inr s'" and m: "\<not> muted s" by simp_all
  show "vals s' SigOut = vals s SigLocalReceive" using update_out [OF u] m by simp
  show "out_writes (calls s') = out_writes (calls s) @ [vals s SigLocalReceive]"
    using update_out_writes [OF u] m by simp
qed

text \<open>
  Claim C5, an instance: the track of \<open>demo\<close> is muted by the bus, its input and local-recv
  change, then division and record change; two updates follow. Unmuted, one update copies
  local-recv to the output.
\<close>

theorem mute_gate_output_witness:
  "run_muted [([(SigMute, Some [1]), (SigIn, Some [5]), (SigLocalReceive, Some [7])], 1 / 5),
              ([(SigDivision, Some [4]), (SigRecord, Some [1])], 1)] demo = [True, True] \<and>
   vals (projr (run [([(SigMute, Some [1]), (SigIn, Some [5]), (SigLocalReceive, Some [7])], 1 / 5),
              ([(SigDivision, Some [4]), (SigRecord, Some [1])], 1)] demo)) SigOut = Some [0] \<and>
   captures (calls (projr (run [([(SigMute, Some [1]), (SigIn, Some [5]), (SigLocalReceive, Some [7])], 1 / 5),
              ([(SigDivision, Some [4]), (SigRecord, Some [1])], 1)] demo)))
     = captures (calls demo) @ [Some [5], Some [5]] \<and>
   vals (projr (update (1 / 5) (bus_writes [(SigLocalReceive, Some [7])] demo))) SigOut = Some [7]"
proof -
  let ?steps = "[([(SigMute, Some [1]), (SigIn, Some [5]), (SigLocalReceive, Some [7])], 1 / 5),
              ([(SigDivision, Some [4]), (SigRecord, Some [1])], 1)]"
  let ?s' = "projr (run ?steps demo)"
  have r: "run ?steps demo = Inr ?s'" by (simp add: eval_defs)
  have m: "run_muted ?steps demo = [True, True]" by (simp add: eval_defs)
  then have ma: "\<forall>m\<in>set (run_muted ?steps demo). m" by simp
  have w: "\<forall>st\<in>set ?steps. \<forall>w\<in>set (fst st). fst w \<noteq> SigOut" by simp
  from mute_gate_output have g: "\<And>steps s s'. run steps s = Inr s' \<Longrightarrow>
      \<forall>m\<in>set (run_muted steps s). m \<Longrightarrow>
      \<forall>st\<in>set steps. \<forall>w\<in>set (fst st). fst w \<noteq> SigOut \<Longrightarrow>
      vals s' SigOut = vals s SigOut \<and> out_writes (calls s') = out_writes (calls s)"
    by blast
  from mute_gate_output have h: "\<And>beats s s'. update beats s = Inr s' \<Longrightarrow> \<not> muted s \<Longrightarrow>
      vals s' SigOut = vals s SigLocalReceive"
    by blast
  let ?u = "bus_writes [(SigLocalReceive, Some [7])] demo"
  have u: "update (1 / 5) ?u = Inr (projr (update (1 / 5) ?u))" by (simp add: eval_defs)
  have nm: "\<not> muted ?u" by (simp add: eval_defs muted_def)
  have c: "captures (calls ?s') = captures (calls demo) @ [Some [5], Some [5]]"
    by (simp add: eval_defs)
  from g [OF r ma w] h [OF u nm] m c show ?thesis
    by (simp add: demo_fields bus_writes_def bus_write_def)
qed

subsection \<open>The first capture\<close>

lemma run_ticks_zero:
  assumes "run steps s = Inr s'" and "lastUpdate s = 0" and "\<forall>t\<in>set (run_ticks steps s). t = Inr 0"
  shows "lastUpdate s' = 0 \<and> captures (calls s') = captures (calls s) \<and>
         diagnostics (calls s') = diagnostics (calls s)"
  using assms
proof (induction steps arbitrary: s)
  case Nil
  then show ?case by simp
next
  case (Cons st rest)
  let ?s0 = "bus_writes (fst st) s"
  from Cons.prems(1) obtain s1 where u: "update (snd st) ?s0 = Inr s1"
    and r: "run rest s1 = Inr s'"
    by (auto split: sum.splits)
  from Cons.prems(3) u have t: "tick_now (snd st) ?s0 = Inr 0"
    and ts: "\<forall>t\<in>set (run_ticks rest s1). t = Inr 0"
    by auto
  have l0: "lastUpdate ?s0 = 0" using Cons.prems(2) by (simp add: bus_writes_fields)
  have l: "lastUpdate s1 = 0" using update_lastUpdate [OF u t] .
  have c: "captures (calls s1) = captures (calls s)" "diagnostics (calls s1) = diagnostics (calls s)"
    using update_calls [OF u t] l0 by (auto simp: captures_def diagnostics_def bus_writes_fields)
  from Cons.IH [OF r l ts] c show ?case by simp
qed

lemma trunc_zero_iff: "trunc x = 0 \<longleftrightarrow> - 1 < x \<and> x < 1"
proof (cases "0 \<le> x")
  case True
  then show ?thesis by (simp add: trunc_def floor_eq_iff)
next
  case False
  then show ?thesis by (simp add: trunc_def ceiling_eq_iff)
qed

lemma tick_now_zero_iff:
  assumes "vals s SigDivision = Some (d # ds)"
  shows "tick_now beats s = Inr 0 \<longleftrightarrow> - 1 < beats * d \<and> beats * d < 1"
proof
  assume "tick_now beats s = Inr 0"
  from tick_now_Inr [OF this] assms have "trunc (beats * d) = 0" by auto
  then show "- 1 < beats * d \<and> beats * d < 1" by (simp add: trunc_zero_iff)
next
  assume "- 1 < beats * d \<and> beats * d < 1"
  then have "trunc (beats * d) = 0" by (simp add: trunc_zero_iff)
  with assms show "tick_now beats s = Inr 0"
    by (simp add: tick_now_def mpr_sig_get_value_def to_int_def INT_MIN_def INT_MAX_def)
qed

text \<open>
  Claim C10, as amended. On a bus that reports the map ready at some time the constructor
  returns a track, and every track it returns has the stored tick index 0. The tick index
  that a call of update derives is beats * division with the fractional part discarded
  (not the floor); it is 0 exactly when the product lies strictly between -1 and 1, in
  particular whenever the floor of the product is 0. From a state with stored index 0, a
  run of update calls that all derive tick 0 captures nothing to local-send, prints no
  diagnostic and leaves the stored index 0; the first call after such a run that derives
  a tick other than 0 makes the first capture, of the input as it is at that call.
\<close>

theorem first_capture:
  "(\<forall>ready mem name type n s. Loop_ctor ready mem name type n = Some s \<longrightarrow> lastUpdate s = 0)
   \<and> (\<forall>ready mem name type n. (\<exists>k. ready k) \<longrightarrow>
         (\<exists>s. Loop_ctor ready mem name type n = Some s \<and> lastUpdate s = 0))
   \<and> (\<forall>beats s now. tick_now beats s = Inr now \<longrightarrow>
         (\<exists>d ds. vals s SigDivision = Some (d # ds) \<and> now = trunc (beats * d)))
   \<and> (\<forall>beats s d ds. vals s SigDivision = Some (d # ds) \<longrightarrow>
         (tick_now beats s = Inr 0) = (- 1 < beats * d \<and> beats * d < 1))
   \<and> (\<forall>steps s s'. run steps s = Inr s' \<and> lastUpdate s = 0 \<and>
         (\<forall>t\<in>set (run_ticks steps s). t = Inr 0) \<longrightarrow>
         lastUpdate s' = 0 \<and> captures (calls s') = captures (calls s) \<and>
         diagnostics (calls s') = diagnostics (calls s))
   \<and> (\<forall>beats s s' now. update beats s = Inr s' \<and> lastUpdate s = 0 \<and>
         tick_now beats s = Inr now \<and> now \<noteq> 0 \<longrightarrow>
         captures (calls s') = captures (calls s) @ [vals s SigIn])
   \<and> (\<forall>steps s s1 ws beats s2 now. run steps s = Inr s1 \<and> lastUpdate s = 0 \<and>
         (\<forall>t\<in>set (run_ticks steps s). t = Inr 0) \<and>
         update beats (bus_writes ws s1) = Inr s2 \<and>
         tick_now beats (bus_writes ws s1) = Inr now \<and> now \<noteq> 0 \<longrightarrow>
         captures (calls s1) = captures (calls s) \<and>
         captures (calls s2) = captures (calls s) @ [vals (bus_writes ws s1) SigIn])
   \<and> (\<forall>beats s d ds. vals s SigDivision = Some (d # ds) \<and> \<lfloor>beats * d\<rfloor> = 0 \<longrightarrow>
         tick_now beats s = Inr 0)"
proof (intro conjI allI impI)
  fix ready mem name type n s
  assume "Loop_ctor ready mem name type n = Some s"
  from Loop_ctor_Some [OF this] show "lastUpdate s = 0"
    by (auto simp: set_defaults_fields poll_n_fields Loop_create_lastUpdate)
next
  fix ready :: "nat \<Rightarrow> bool" and mem name type n
  assume "\<exists>k. ready k"
  then have "Loop_ctor ready mem name type n \<noteq> None" by (simp add: Loop_ctor_None_iff)
  then obtain s where s: "Loop_ctor ready mem name type n = Some s" by blast
  from Loop_ctor_Some [OF s] have "lastUpdate s = 0"
    by (auto simp: set_defaults_fields poll_n_fields Loop_create_lastUpdate)
  with s show "\<exists>s. Loop_ctor ready mem name type n = Some s \<and> lastUpdate s = 0" by blast
next
  fix beats s now
  assume "tick_now beats s = Inr now"
  then show "\<exists>d ds. vals s SigDivision = Some (d # ds) \<and> now = trunc (beats * d)"
    by (rule tick_now_Inr)
next
  fix beats and s :: loop_state and d ds
  assume "vals s SigDivision = Some (d # ds)"
  then show "(tick_now beats s = Inr 0) = (- 1 < beats * d \<and> beats * d < 1)"
    by (rule tick_now_zero_iff)
next
  fix steps s s'
  assume a: "run steps s = Inr s' \<and> lastUpdate s = 0 \<and> (\<forall>t\<in>set (run_ticks steps s). t = Inr 0)"
  then have "lastUpdate s' = 0 \<and> captures (calls s') = captures (calls s) \<and>
         diagnostics (calls s') = diagnostics (calls s)"
    using run_ticks_zero by blast
  then show "lastUpdate s' = 0" and "captures (calls s') = captures (calls s)"
    and "diagnostics (calls s') = diagnostics (calls s)" by simp_all
next
  fix beats s s' now
  assume a: "update beats s = Inr s' \<and> lastUpdate s = 0 \<and> tick_now beats s = Inr now \<and> now \<noteq> 0"
  then have u: "update beats s = Inr s'" and t: "tick_now beats s = Inr now"
    and n: "now \<noteq> lastUpdate s" by simp_all
  show "captures (calls s') = captures (calls s) @ [vals s SigIn]"
    using update_calls [OF u t] n by (auto simp: captures_def)
next
  fix steps s s1 ws beats s2 now
  assume a: "run steps s = Inr s1 \<and> lastUpdate s = 0 \<and>
         (\<forall>t\<in>set (run_ticks steps s). t = Inr 0) \<and>
         update beats (bus_writes ws s1) = Inr s2 \<and>
         tick_now beats (bus_writes ws s1) = Inr now \<and> now \<noteq> 0"
  then have r: "run steps s = Inr s1" and l: "lastUpdate s = 0"
    and z: "\<forall>t\<in>set (run_ticks steps s). t = Inr 0"
    and u: "update beats (bus_writes ws s1) = Inr s2"
    and t: "tick_now beats (bus_writes ws s1) = Inr now" and n: "now \<noteq> 0"
    by simp_all
  from run_ticks_zero [OF r l z] have l1: "lastUpdate s1 = 0"
    and c1: "captures (calls s1) = captures (calls s)" by simp_all
  show "captures (calls s1) = captures (calls s)" by (rule c1)
  have "now \<noteq> lastUpdate (bus_writes ws s1)" using n l1 by (simp add: bus_writes_fields)
  then show "captures (calls s2) = captures (calls s) @ [vals (bus_writes ws s1) SigIn]"
    using update_calls [OF u t] c1 by (auto simp: captures_def bus_writes_fields)
next
  fix beats and s :: loop_state and d ds
  assume a: "vals s SigDivision = Some (d # ds) \<and> \<lfloor>beats * d\<rfloor> = 0"
  then have "trunc (beats * d) = 0" using floor_zero_trunc by blast
  with a show "tick_now beats s = Inr 0"
    by (simp add: tick_now_def mpr_sig_get_value_def to_int_def INT_MIN_def INT_MAX_def)
qed

text \<open>
  Claim C10, an instance: the constructor returns the track of \<open>demo\<close>, with stored index
  0. It is updated at beats -1/20 and 1/20, which both derive tick 0 (the input changing
  to 5 in between), and then at beat 1/16, which derives tick 1 and makes the first
  capture.
\<close>

theorem first_capture_witness:
  "Loop_ctor (\<lambda>k. True) ([], []) ''t'' MPR_FLT 1 = Some demo \<and>
   lastUpdate demo = 0 \<and>
   run_ticks [([], - 1 / 20), ([(SigIn, Some [5])], 1 / 20)] demo = [Inr 0, Inr 0] \<and>
   captures (calls (projr (run [([], - 1 / 20), ([(SigIn, Some [5])], 1 / 20)] demo)))
     = captures (calls demo) \<and>
   diagnostics (calls (projr (run [([], - 1 / 20), ([(SigIn, Some [5])], 1 / 20)] demo)))
     = diagnostics (calls demo) \<and>
   tick_now (1 / 16) (projr (run [([], - 1 / 20), ([(SigIn, Some [5])], 1 / 20)] demo)) = Inr 1 \<and>
   captures (calls (projr (update (1 / 16)
       (projr (run [([], - 1 / 20), ([(SigIn, Some [5])], 1 / 20)] demo)))))
     = captures (calls demo) @ [Some [5]]"
proof -
  let ?steps = "[([], - 1 / 20), ([(SigIn, Some [5])], 1 / 20)] :: step list"
  let ?s1 = "projr (run ?steps demo)"
  let ?s2 = "projr (update (1 / 16) ?s1)"
  have c: "Loop_ctor (\<lambda>k. True) ([], []) ''t'' MPR_FLT 1 = Some demo" by (rule demo_ctor)
  from first_capture [THEN conjunct1] c have l: "lastUpdate demo = 0" by blast
  have r: "run ?steps demo = Inr ?s1" by (simp add: eval_defs)
  have ts: "run_ticks ?steps demo = [Inr 0, Inr 0]" by (simp add: eval_defs)
  then have tz: "\<forall>t\<in>set (run_ticks ?steps demo). t = Inr 0" by simp
  from first_capture [THEN conjunct2, THEN conjunct2, THEN conjunct2, THEN conjunct2, THEN conjunct1]
  have f: "\<And>steps s s'. run steps s = Inr s' \<Longrightarrow> lastUpdate s = 0 \<Longrightarrow>
         \<forall>t\<in>set (run_ticks steps s). t = Inr 0 \<Longrightarrow>
         lastUpdate s' = 0 \<and> captures (calls s') = captures (calls s) \<and>
         diagnostics (calls s') = diagnostics (calls s)"
    by blast
  from first_capture [THEN conjunct2, THEN conjunct2, THEN conjunct2, THEN conjunct2, THEN conjunct2,
      THEN conjunct1]
  have g: "\<And>beats s s' now. update beats s = Inr s' \<Longrightarrow> lastUpdate s = 0 \<Longrightarrow>
         tick_now beats s = Inr now \<Longrightarrow> now \<noteq> 0 \<Longrightarrow>
         captures (calls s') = captures (calls s) @ [vals s SigIn]"
    by blast
  note f1 = f [OF r l tz]
  have u: "update (1 / 16) ?s1 = Inr ?s2" by (simp add: eval_defs)
  have t: "tick_now (1 / 16) ?s1 = Inr 1" by (simp add: eval_defs)
  have i: "vals ?s1 SigIn = Some [5]" by (simp add: eval_defs)
  have "captures (calls ?s2) = captures (calls ?s1) @ [vals ?s1 SigIn]"
    by (rule g [OF u _ t]) (use f1 in simp_all)
  with f1 l ts i c t show ?thesis by simp
qed

text \<open>
  Claim C10 as stated, with the tick index read as the floor of beats * division, fails:
  on the track of \<open>demo\<close> (division 16, stored index 0) the first call, at beat -1/20, has
  floor -1, which differs from 0, yet it derives tick 0 and captures nothing; the first
  capture is made by the later call at beat 1/16.
\<close>

theorem first_capture_counterexample:
  "\<lfloor>(- 1 / 20) * 16 :: real\<rfloor> = - 1 \<and>
   run_ticks [([], - 1 / 20), ([], 1 / 16)] demo = [Inr 0, Inr 1] \<and>
   map_sum id (\<lambda>s. (lastUpdate s, captures (calls s) = captures (calls demo)))
     (run [([], - 1 / 20)] demo) = Inr (0, True) \<and>
   map_sum id (\<lambda>s. (lastUpdate s, captures (calls s) = captures (calls demo) @ [Some [0]]))
     (run [([], - 1 / 20), ([], 1 / 16)] demo) = Inr (1, True)"
  by (simp add: eval_defs)

subsection \<open>The destructor\<close>

text \<open>
  Claim C6 asks that destroying a track releases its nine signals. The destructor frees
  eight of them and not the mute signal: of the nine names that the track of \<open>demo\<close>
  shows, the name of the mute signal is still shown after the destructor.
\<close>

theorem dtor_leaves_mute:
  "observable demo =
     [''t/control/record'', ''t/control/length'', ''t/control/division'', ''t/control/modulation'',
      ''t/control/mute'', ''t/input'', ''t/output'', ''t/local/send'', ''t/local/recv''] \<and>
   observable (Loop_dtor demo) = [''t/control/mute'']"
  by (simp add: eval_defs observable_def Loop_dtor_def sigName_def)

text \<open>The same for every track: the destructor keeps exactly the entries of the mute signal.\<close>

lemma dtor_sigs:
  "sigs (Loop_dtor s) = filter (\<lambda>x. fst x = SigMute) (sigs s)"
proof -
  have "sigs (Loop_dtor s) = filter (\<lambda>x. fst x \<notin> {SigRecord, SigLength, SigModulation, SigDivision,
            SigIn, SigOut, SigLocalReceive, SigLocalSend}) (sigs s)"
    by (simp add: Loop_dtor_def mpr_sig_free_def Let_def conj_commute conj_left_commute)
  also have "\<dots> = filter (\<lambda>x. fst x = SigMute) (sigs s)"
  proof (rule filter_cong [OF refl])
    fix x
    show "(fst x \<notin> {SigRecord, SigLength, SigModulation, SigDivision,
            SigIn, SigOut, SigLocalReceive, SigLocalSend}) = (fst x = SigMute)"
      by (cases "fst x") simp_all
  qed
  finally show ?thesis .
qed

lemma dtor_after_ctor:
  assumes "Loop_ctor ready mem name type n = Some s"
  shows "observable (Loop_dtor s) = [sigName name ''control/mute'']"
proof -
  let ?P = "Loop_create mem name (Loop_init type n)"
  from Loop_ctor_Some [OF assms] have "sigs s = sigs ?P"
    by (auto simp: set_defaults_fields poll_n_fields)
  then have "observable (Loop_dtor s) = map (\<lambda>x. sig_name (snd x)) (filter (\<lambda>x. fst x = SigMute) (sigs ?P))"
    by (simp add: observable_def dtor_sigs)
  also have "\<dots> = [sigName name ''control/mute'']"
    by (simp add: create_defs bus_defs Let_def)
  finally show ?thesis .
qed

subsection \<open>The order of construction\<close>

text \<open>
  Claim C7. When the constructor reaches its wait, record, modulation and mute hold the
  value 0, length and division hold no value, and no call has set length or division.
  The constructor then polls the device until the bus reports the map ready: it never
  returns if the bus never does, and otherwise returns after exactly as many polls as the
  bus needs. Its last two calls, after the last poll, set length to 1 and division to 16.
\<close>

theorem ctor_order:
  "vals (Loop_create mem name (Loop_init type n)) SigRecord = Some [0] \<and>
   vals (Loop_create mem name (Loop_init type n)) SigModulation = Some [0] \<and>
   vals (Loop_create mem name (Loop_init type n)) SigMute = Some [0] \<and>
   vals (Loop_create mem name (Loop_init type n)) SigLength = None \<and>
   vals (Loop_create mem name (Loop_init type n)) SigDivision = None \<and>
   list_all (\<lambda>c. case c of Sig_set_value e v \<Rightarrow> e \<noteq> SigLength \<and> e \<noteq> SigDivision | _ \<Rightarrow> True)
     (calls (Loop_create mem name (Loop_init type n))) \<and>
   ((Loop_ctor ready mem name type n = None) = (\<forall>k. \<not> ready k)) \<and>
   (\<forall>s. Loop_ctor ready mem name type n = Some s \<longrightarrow>
      (\<exists>k. ready k \<and> (\<forall>j<k. \<not> ready j) \<and> polls s = k \<and>
         calls s = calls (Loop_create mem name (Loop_init type n)) @ replicate k Dev_poll @
                   [Sig_set_value SigLength (Some [1]), Sig_set_value SigDivision (Some [16])] \<and>
         vals s SigLength = Some [1] \<and> vals s SigDivision = Some [16] \<and>
         vals s SigRecord = Some [0] \<and> vals s SigModulation = Some [0] \<and> vals s SigMute = Some [0]))"
proof (intro conjI allI impI)
  let ?P = "Loop_create mem name (Loop_init type n)"
  show "vals ?P SigRecord = Some [0]" "vals ?P SigModulation = Some [0]" "vals ?P SigMute = Some [0]"
    "vals ?P SigLength = None" "vals ?P SigDivision = None"
    by (simp_all add: Loop_create_vals)
  show "list_all (\<lambda>c. case c of Sig_set_value e v \<Rightarrow> e \<noteq> SigLength \<and> e \<noteq> SigDivision | _ \<Rightarrow> True)
     (calls ?P)"
    by (simp add: Loop_create_calls)
  show "(Loop_ctor ready mem name type n = None) = (\<forall>k. \<not> ready k)"
    by (rule Loop_ctor_None_iff)
  fix s
  assume "Loop_ctor ready mem name type n = Some s"
  from Loop_ctor_Some [OF this] obtain k where k: "ready k" "\<forall>j<k. \<not> ready j"
    and s: "s = set_defaults ((mpr_dev_poll ^^ k) ?P)" by blast
  have "polls s = k \<and>
         calls s = calls ?P @ replicate k Dev_poll @
                   [Sig_set_value SigLength (Some [1]), Sig_set_value SigDivision (Some [16])] \<and>
         vals s SigLength = Some [1] \<and> vals s SigDivision = Some [16] \<and>
         vals s SigRecord = Some [0] \<and> vals s SigModulation = Some [0] \<and> vals s SigMute = Some [0]"
    unfolding s by (simp add: set_defaults_fields poll_n_fields Loop_create_polls Loop_create_vals)
  with k show "\<exists>k. ready k \<and> (\<forall>j<k. \<not> ready j) \<and> polls s = k \<and>
         calls s = calls ?P @ replicate k Dev_poll @
                   [Sig_set_value SigLength (Some [1]), Sig_set_value SigDivision (Some [16])] \<and>
         vals s SigLength = Some [1] \<and> vals s SigDivision = Some [16] \<and>
         vals s SigRecord = Some [0] \<and> vals s SigModulation = Some [0] \<and> vals s SigMute = Some [0]"
    by blast
qed

text \<open>
  Claim C7, an instance: on a bus that reports the map ready after two polls the
  constructor returns after two polls and then sets length and division; on a bus that
  never reports it ready the constructor does not return.
\<close>

theorem ctor_order_witness:
  "Loop_ctor (\<lambda>k. 2 \<le> k) ([], []) ''t'' MPR_FLT 1 \<noteq> None \<and>
   polls (the (Loop_ctor (\<lambda>k. 2 \<le> k) ([], []) ''t'' MPR_FLT 1)) = 2 \<and>
   drop 17 (calls (the (Loop_ctor (\<lambda>k. 2 \<le> k) ([], []) ''t'' MPR_FLT 1))) =
     [Dev_poll, Dev_poll, Sig_set_value SigLength (Some [1]), Sig_set_value SigDivision (Some [16])] \<and>
   Loop_ctor (\<lambda>k. False) ([], []) ''t'' MPR_FLT 1 = None"
proof -
  let ?r = "\<lambda>k::nat. 2 \<le> k"
  let ?P = "Loop_create ([], []) ''t'' (Loop_init MPR_FLT 1)"
  have n: "Loop_ctor ?r ([], []) ''t'' MPR_FLT 1 \<noteq> None"
    using ctor_order [of "([], [])" "''t''" MPR_FLT 1 ?r] by auto
  then obtain s where s: "Loop_ctor ?r ([], []) ''t'' MPR_FLT 1 = Some s" by blast
  with ctor_order [of "([], [])" "''t''" MPR_FLT 1 ?r] obtain k where k: "2 \<le> k" "\<forall>j<k. \<not> 2 \<le> j"
    and p: "polls s = k"
    and c: "calls s = calls ?P @ replicate k Dev_poll @
                   [Sig_set_value SigLength (Some [1]), Sig_set_value SigDivision (Some [16])]"
    by blast
  from k have k2: "k = 2" by (metis le_antisym not_le order_refl)
  have l: "length (calls ?P) = 17" by (simp add: Loop_create_calls)
  have f: "Loop_ctor (\<lambda>k. False) ([], []) ''t'' MPR_FLT 1 = None"
    using ctor_order [of "([], [])" "''t''" MPR_FLT 1 "\<lambda>k. False"] by simp
  from n s p c k2 l f show ?thesis by (simp add: numeral_2_eq_2)
qed

subsection \<open>The late binder\<close>

lemma run_handler_cbs: "cbs (run_handler h ob ev s) = cbs s"
  by (cases h) (simp_all add: mpr_obj_push_def)

lemma fold_handlers_cbs: "cbs (fold (\<lambda>h. run_handler h ob ev) hs s) = cbs s"
  by (induction hs arbitrary: s) (simp_all add: run_handler_cbs)

lemma graph_event_cbs: "cbs (graph_event oe s) = cbs s"
  by (simp add: graph_event_def fold_handlers_cbs)

lemma graph_events_cbs: "cbs (graph_events es s) = cbs s"
  unfolding graph_events_def
  by (induction es arbitrary: s) (simp_all add: graph_event_cbs)

lemma run_handler_maps_cong:
  "maps s = maps t \<Longrightarrow> maps (run_handler h ob ev s) = maps (run_handler h ob ev t)"
  by (cases h) (simp_all add: mpr_obj_push_def)

lemma fold_handlers_maps_cong:
  "maps s = maps t \<Longrightarrow>
   maps (fold (\<lambda>h. run_handler h ob ev) hs s) = maps (fold (\<lambda>h. run_handler h ob ev) hs t)"
proof (induction hs arbitrary: s t)
  case Nil
  then show ?case by simp
next
  case (Cons h hs)
  from run_handler_maps_cong [OF Cons.prems]
  have "maps (run_handler h ob ev s) = maps (run_handler h ob ev t)" .
  from Cons.IH [OF this] show ?case by simp
qed

lemma graph_event_add_cb:
  "maps (graph_event (ob, ev) (mpr_graph_add_cb h s)) =
   maps (run_handler h ob ev (graph_event (ob, ev) s))"
proof -
  let ?F = "\<lambda>h. run_handler h ob ev"
  have "maps (graph_event (ob, ev) (mpr_graph_add_cb h s)) =
        maps (?F h (fold ?F (cbs s) (mpr_graph_add_cb h s)))"
    by (simp add: graph_event_def mpr_graph_add_cb_def)
  also have "\<dots> = maps (?F h (fold ?F (cbs s) s))"
  proof (rule run_handler_maps_cong)
    show "maps (fold ?F (cbs s) (mpr_graph_add_cb h s)) = maps (fold ?F (cbs s) s)"
      by (rule fold_handlers_maps_cong) (simp add: mpr_graph_add_cb_def)
  qed
  finally show ?thesis by (simp add: graph_event_def)
qed

lemma mapFrom_event:
  "links (graph_event (ob, ev) (mapFrom P e s)) =
   links (graph_event (ob, ev) s) @ (if obj_name ob = P then [(Observed ob, Local e)] else [])"
  unfolding mapFrom_def links_def graph_event_add_cb
  by (simp add: mpr_obj_push_def mpr_map_new_def) 

lemma mapTo_event:
  "links (graph_event (ob, ev) (mapTo e P s)) =
   links (graph_event (ob, ev) s) @ (if obj_name ob = P then [(Local e, Observed ob)] else [])"
  unfolding mapTo_def links_def graph_event_add_cb
  by (simp add: mpr_obj_push_def mpr_map_new_def)

lemma graph_event_no_match:
  assumes "cbs s = [h]" and "case h of From_handler P e \<Rightarrow> P \<noteq> obj_name ob | To_handler e P \<Rightarrow> P \<noteq> obj_name ob"
  shows "graph_event (ob, ev) s = s"
  using assms by (cases h) (simp_all add: graph_event_def)

lemma graph_events_no_match:
  assumes "cbs s = [h]"
    and "\<forall>oe\<in>set es. case h of From_handler P e \<Rightarrow> P \<noteq> obj_name (fst oe) | To_handler e P \<Rightarrow> P \<noteq> obj_name (fst oe)"
  shows "graph_events es s = s"
  using assms unfolding graph_events_def
proof (induction es)
  case Nil
  then show ?case by simp
next
  case (Cons oe es)
  have "graph_event oe s = s"
    using graph_event_no_match [of s h "fst oe" "snd oe"] Cons.prems by simp
  with Cons show ?case by simp
qed

lemma first_match_from:
  assumes "cbs s = []" and "\<forall>oe\<in>set pre. obj_name (fst oe) \<noteq> P" and "obj_name ob = P"
  shows "links (graph_events (pre @ [(ob, ev)]) (mapFrom P e s)) = links s @ [(Observed ob, Local e)]"
proof -
  have c: "cbs (mapFrom P e s) = [From_handler P e]"
    using assms(1) by (simp add: mapFrom_def mpr_graph_add_cb_def)
  have "graph_events pre (mapFrom P e s) = mapFrom P e s"
    by (rule graph_events_no_match [OF c]) (use assms(2) in auto)
  then have "graph_events (pre @ [(ob, ev)]) (mapFrom P e s) = graph_event (ob, ev) (mapFrom P e s)"
    by (simp add: graph_events_def)
  moreover have "graph_event (ob, ev) s = s" using assms(1) by (simp add: graph_event_def)
  ultimately show ?thesis using assms(3) by (simp add: mapFrom_event)
qed

lemma first_match_to:
  assumes "cbs s = []" and "\<forall>oe\<in>set pre. obj_name (fst oe) \<noteq> P" and "obj_name ob = P"
  shows "links (graph_events (pre @ [(ob, ev)]) (mapTo e P s)) = links s @ [(Local e, Observed ob)]"
proof -
  have c: "cbs (mapTo e P s) = [To_handler e P]"
    using assms(1) by (simp add: mapTo_def mpr_graph_add_cb_def)
  have "graph_events pre (mapTo e P s) = mapTo e P s"
    by (rule graph_events_no_match [OF c]) (use assms(2) in auto)
  then have "graph_events (pre @ [(ob, ev)]) (mapTo e P s) = graph_event (ob, ev) (mapTo e P s)"
    by (simp add: graph_events_def)
  moreover have "graph_event (ob, ev) s = s" using assms(1) by (simp add: graph_event_def)
  ultimately show ?thesis using assms(3) by (simp add: mapTo_event)
qed

lemma run_handler_links:
  "links (run_handler h ob ev s) = links s @
     (case h of
        From_handler P e \<Rightarrow> (if P = obj_name ob then [(Observed ob, Local e)] else [])
      | To_handler e P \<Rightarrow> (if P = obj_name ob then [(Local e, Observed ob)] else []))"
  by (cases h) (simp_all add: links_def mpr_obj_push_def mpr_map_new_def)

lemma fold_handlers_links:
  "links (fold (\<lambda>h. run_handler h ob ev) hs s) = links s @ concat (map (\<lambda>h.
     case h of
        From_handler P e \<Rightarrow> (if P = obj_name ob then [(Observed ob, Local e)] else [])
      | To_handler e P \<Rightarrow> (if P = obj_name ob then [(Local e, Observed ob)] else [])) hs)"
  by (induction hs arbitrary: s) (simp_all add: run_handler_links)

lemma graph_event_links:
  "links (graph_event (ob, ev) s) = links s @ concat (map (\<lambda>h.
     case h of
        From_handler P e \<Rightarrow> (if P = obj_name ob then [(Observed ob, Local e)] else [])
      | To_handler e P \<Rightarrow> (if P = obj_name ob then [(Local e, Observed ob)] else [])) (cbs s))"
  by (simp add: graph_event_def fold_handlers_links)

text \<open>
  Claim C8. A request made by mapRecord, mapLength, mapModulation or mapInput for the
  peer name \<open>P\<close> adds, at an event about an observed signal, exactly one connection from
  the observed signal to the local record, length, modulation or input signal when the
  name of the observed signal equals \<open>P\<close>, and nothing otherwise; a request made by
  mapOutput adds one connection from the local output signal to the observed signal on
  the same condition. So a request made when no handler is registered, followed by events
  about signals of other names, has installed nothing, and the first event about a signal
  named \<open>P\<close> installs the one connection, in the direction of the request.
\<close>

theorem binding_request:
  "links (graph_event (ob, ev) (mapRecord P s)) =
     links (graph_event (ob, ev) s) @ (if obj_name ob = P then [(Observed ob, Local SigRecord)] else []) \<and>
   links (graph_event (ob, ev) (mapLength P s)) =
     links (graph_event (ob, ev) s) @ (if obj_name ob = P then [(Observed ob, Local SigLength)] else []) \<and>
   links (graph_event (ob, ev) (mapModulation P s)) =
     links (graph_event (ob, ev) s) @ (if obj_name ob = P then [(Observed ob, Local SigModulation)] else []) \<and>
   links (graph_event (ob, ev) (mapInput P s)) =
     links (graph_event (ob, ev) s) @ (if obj_name ob = P then [(Observed ob, Local SigIn)] else []) \<and>
   links (graph_event (ob, ev) (mapOutput P s)) =
     links (graph_event (ob, ev) s) @ (if obj_name ob = P then [(Local SigOut, Observed ob)] else []) \<and>
   (cbs s = [] \<and> (\<forall>oe\<in>set pre. obj_name (fst oe) \<noteq> P) \<and> obj_name ob = P \<longrightarrow>
      links (graph_events pre (mapRecord P s)) = links s \<and>
      links (graph_events (pre @ [(ob, ev)]) (mapRecord P s)) = links s @ [(Observed ob, Local SigRecord)] \<and>
      links (graph_events pre (mapLength P s)) = links s \<and>
      links (graph_events (pre @ [(ob, ev)]) (mapLength P s)) = links s @ [(Observed ob, Local SigLength)] \<and>
      links (graph_events pre (mapModulation P s)) = links s \<and>
      links (graph_events (pre @ [(ob, ev)]) (mapModulation P s)) = links s @ [(Observed ob, Local SigModulation)] \<and>
      links (graph_events pre (mapInput P s)) = links s \<and>
      links (graph_events (pre @ [(ob, ev)]) (mapInput P s)) = links s @ [(Observed ob, Local SigIn)] \<and>
      links (graph_events pre (mapOutput P s)) = links s \<and>
      links (graph_events (pre @ [(ob, ev)]) (mapOutput P s)) = links s @ [(Local SigOut, Observed ob)])"
proof -
  have pre_from: "links (graph_events pre (mapFrom P e s)) = links s"
    if "cbs s = []" "\<forall>oe\<in>set pre. obj_name (fst oe) \<noteq> P" for e
  proof -
    have c: "cbs (mapFrom P e s) = [From_handler P e]"
      using that(1) by (simp add: mapFrom_def mpr_graph_add_cb_def)
    have "graph_events pre (mapFrom P e s) = mapFrom P e s"
      by (rule graph_events_no_match [OF c]) (use that(2) in auto)
    then show ?thesis by (simp add: mapFrom_def mpr_graph_add_cb_def links_def)
  qed
  have pre_to: "links (graph_events pre (mapTo e P s)) = links s"
    if "cbs s = []" "\<forall>oe\<in>set pre. obj_name (fst oe) \<noteq> P" for e
  proof -
    have c: "cbs (mapTo e P s) = [To_handler e P]"
      using that(1) by (simp add: mapTo_def mpr_graph_add_cb_def)
    have "graph_events pre (mapTo e P s) = mapTo e P s"
      by (rule graph_events_no_match [OF c]) (use that(2) in auto)
    then show ?thesis by (simp add: mapTo_def mpr_graph_add_cb_def links_def)
  qed
  show ?thesis
    unfolding mapRecord_def mapLength_def mapModulation_def mapInput_def mapOutput_def
    by (intro conjI impI; (elim conjE)?)
       (simp_all only: mapFrom_event mapTo_event pre_from pre_to first_match_from first_match_to)
qed


text \<open>
  Claim C8, an instance: on the track of \<open>demo\<close> a request for \<open>peer/x\<close> sees a signal
  \<open>peer/y\<close> and then a signal \<open>peer/x\<close>.
\<close>

theorem binding_request_witness:
  "links (graph_events [(\<lparr>obj_id = 0, obj_name = ''peer/y''\<rparr>, MPR_OBJ_NEW)] (mapRecord ''peer/x'' demo)) = [] \<and>
   links (graph_events [(\<lparr>obj_id = 0, obj_name = ''peer/y''\<rparr>, MPR_OBJ_NEW),
                        (\<lparr>obj_id = 1, obj_name = ''peer/x''\<rparr>, MPR_OBJ_NEW)] (mapRecord ''peer/x'' demo))
     = [(Observed \<lparr>obj_id = 1, obj_name = ''peer/x''\<rparr>, Local SigRecord)] \<and>
   links (graph_events [(\<lparr>obj_id = 0, obj_name = ''peer/y''\<rparr>, MPR_OBJ_NEW),
                        (\<lparr>obj_id = 1, obj_name = ''peer/x''\<rparr>, MPR_OBJ_NEW)] (mapOutput ''peer/x'' demo))
     = [(Local SigOut, Observed \<lparr>obj_id = 1, obj_name = ''peer/x''\<rparr>)]"
proof -
  let ?pre = "[(\<lparr>obj_id = 0, obj_name = ''peer/y''\<rparr>, MPR_OBJ_NEW)]"
  let ?ob = "\<lparr>obj_id = 1, obj_name = ''peer/x''\<rparr>"
  have c: "cbs demo = []" by (simp add: eval_defs)
  have l: "links demo = []" by (simp add: eval_defs links_def)
  have p: "\<forall>oe\<in>set ?pre. obj_name (fst oe) \<noteq> ''peer/x''" by simp
  have n: "obj_name ?ob = ''peer/x''" by simp
  from binding_request [of ?ob MPR_OBJ_NEW "''peer/x''" demo ?pre] c p n l
  show ?thesis by simp
qed

text \<open>
  Claim C9. An event of the graph leaves the registered handlers as they were, also the
  handler of a request that has just matched. Whenever the handler of a request for \<open>P\<close>
  is registered, an event about a signal named \<open>P\<close> adds a connection for it; so two
  events about signals named \<open>P\<close> after one request install two connections.
\<close>

theorem observer_stays:
  "cbs (graph_event (ob, ev) s) = cbs s \<and>
   cbs (graph_events es s) = cbs s \<and>
   (From_handler P e \<in> set (cbs s) \<and> obj_name ob = P \<longrightarrow>
      (Observed ob, Local e) \<in> set (drop (length (links s)) (links (graph_event (ob, ev) s)))) \<and>
   (To_handler e P \<in> set (cbs s) \<and> obj_name ob = P \<longrightarrow>
      (Local e, Observed ob) \<in> set (drop (length (links s)) (links (graph_event (ob, ev) s)))) \<and>
   (cbs s = [] \<and> obj_name ob = P \<and> obj_name ob' = P \<longrightarrow>
      links (graph_event (ob', ev') (graph_event (ob, ev) (mapFrom P e s)))
        = links s @ [(Observed ob, Local e), (Observed ob', Local e)] \<and>
      links (graph_event (ob', ev') (graph_event (ob, ev) (mapTo e P s)))
        = links s @ [(Local e, Observed ob), (Local e, Observed ob')])"
proof (intro conjI impI)
  show "cbs (graph_event (ob, ev) s) = cbs s" by (rule graph_event_cbs)
  show "cbs (graph_events es s) = cbs s" by (rule graph_events_cbs)
next
  assume a: "From_handler P e \<in> set (cbs s) \<and> obj_name ob = P"
  then show "(Observed ob, Local e) \<in> set (drop (length (links s)) (links (graph_event (ob, ev) s)))"
    by (force simp: graph_event_links)
next
  assume a: "To_handler e P \<in> set (cbs s) \<and> obj_name ob = P"
  then show "(Local e, Observed ob) \<in> set (drop (length (links s)) (links (graph_event (ob, ev) s)))"
    by (force simp: graph_event_links)
next
  assume a: "cbs s = [] \<and> obj_name ob = P \<and> obj_name ob' = P"
  have l: "links (mapFrom P e s) = links s" "links (mapTo e P s) = links s"
    by (simp_all add: mapFrom_def mapTo_def mpr_graph_add_cb_def links_def)
  have c: "cbs (mapFrom P e s) = [From_handler P e]" "cbs (mapTo e P s) = [To_handler e P]"
    using a by (simp_all add: mapFrom_def mapTo_def mpr_graph_add_cb_def)
  show "links (graph_event (ob', ev') (graph_event (ob, ev) (mapFrom P e s)))
        = links s @ [(Observed ob, Local e), (Observed ob', Local e)]"
    using a by (simp add: graph_event_links graph_event_cbs l c)
  show "links (graph_event (ob', ev') (graph_event (ob, ev) (mapTo e P s)))
        = links s @ [(Local e, Observed ob), (Local e, Observed ob')]"
    using a by (simp add: graph_event_links graph_event_cbs l c)
qed

text \<open>
  Claim C9, an instance: on the track of \<open>demo\<close> a request for \<open>peer/x\<close> sees two signals
  of that name, one after the other.
\<close>

theorem observer_stays_witness:
  "cbs (graph_event (\<lparr>obj_id = 1, obj_name = ''peer/x''\<rparr>, MPR_OBJ_NEW) (mapRecord ''peer/x'' demo))
     = [From_handler ''peer/x'' SigRecord] \<and>
   links (graph_event (\<lparr>obj_id = 2, obj_name = ''peer/x''\<rparr>, MPR_OBJ_NEW)
           (graph_event (\<lparr>obj_id = 1, obj_name = ''peer/x''\<rparr>, MPR_OBJ_NEW) (mapRecord ''peer/x'' demo)))
     = [(Observed \<lparr>obj_id = 1, obj_name = ''peer/x''\<rparr>, Local SigRecord),
        (Observed \<lparr>obj_id = 2, obj_name = ''peer/x''\<rparr>, Local SigRecord)]"
proof -
  let ?o1 = "\<lparr>obj_id = 1, obj_name = ''peer/x''\<rparr>"
  let ?o2 = "\<lparr>obj_id = 2, obj_name = ''peer/x''\<rparr>"
  have c: "cbs demo = []" by (simp add: eval_defs)
  have l: "links demo = []" by (simp add: eval_defs links_def)
  have r: "cbs (mapRecord ''peer/x'' demo) = [From_handler ''peer/x'' SigRecord]"
    using c by (simp add: mapRecord_def mapFrom_def mpr_graph_add_cb_def)
  have n: "obj_name ?o1 = ''peer/x''" "obj_name ?o2 = ''peer/x''" by simp_all
  from observer_stays [of ?o1 MPR_OBJ_NEW "mapRecord ''peer/x'' demo" "[]" "''peer/x''" SigRecord ?o2 MPR_OBJ_NEW,
      THEN conjunct1] r
  have 1: "cbs (graph_event (?o1, MPR_OBJ_NEW) (mapRecord ''peer/x'' demo)) = [From_handler ''peer/x'' SigRecord]"
    by simp
  from observer_stays [of ?o1 MPR_OBJ_NEW demo "[]" "''peer/x''" SigRecord ?o2 MPR_OBJ_NEW] c n l
  have 2: "links (graph_event (?o2, MPR_OBJ_NEW) (graph_event (?o1, MPR_OBJ_NEW) (mapFrom ''peer/x'' SigRecord demo)))
        = [(Observed ?o1, Local SigRecord), (Observed ?o2, Local SigRecord)]"
    by simp
  from 1 2 show ?thesis by (simp add: mapRecord_def)
qed

end
